theory Spec2Isabelle
  imports Main "HOL-Library.Word"
begin

unbundle bit_operations_syntax

section \<open>Data model of \<^verbatim>\<open>extensions/io/src/module.c\<close>\<close>

text \<open>
  Objects live in a store: a Channel pointer is an index into the list of Channels, a Port
  pointer an index into the list of Ports, and \<^verbatim>\<open>NULL\<close> is \<open>None\<close>.  Reading through
  \<^verbatim>\<open>NULL\<close> or through an index outside the store is the error \<open>SegFault\<close>.
  Python reference counts are not modelled.  Behaviour that C leaves undefined and that is
  not such a read (a division by zero, a cast to a structure the object is not) is the error
  \<open>Undefined\<close>.
\<close>

type_synonym addr = nat

datatype error =
    SegFault
  | Undefined
  | TypeError
  | BufferError
  | RuntimeError
  | ChannelTerminatedError
  | ChannelResourceError

text \<open>A Python object offered as a resource: whether it exports a buffer, whether that
  buffer is writable, and the length of the buffer in bytes.  A \<^verbatim>\<open>DatagramArray\<close> has in
  \<open>ob_dga\<close> the unit of its records, \<^verbatim>\<open>DatagramCalculateUnit(space, addrlen)\<close>; any other
  object has \<open>None\<close> there.  The macro \<^verbatim>\<open>DatagramCalculateUnit\<close> is not part of the sources,
  and the space and the address length of an array are fixed when it is allocated, so the
  value of the macro is a parameter that the object carries.\<close>

record pyobject =
  ob_id :: nat
  ob_buffer :: bool
  ob_writable :: bool
  ob_len :: "32 word"
  ob_dga :: "32 word option"

datatype pyval =
    PyNone
  | PyTrue
  | PyFalse
  | PyChannel addr
  | PyGetItemSlice pyobject "32 word" "32 word"
  | PyEmptyTuple
  | PyJxi addr "addr option"

datatype pyarg = ObChannel addr | ObOther

text \<open>The interface tables \<^verbatim>\<open>OctetsTIF\<close>, \<^verbatim>\<open>SocketsTIF\<close>, \<^verbatim>\<open>PortsTIF\<close>,
  \<^verbatim>\<open>DatagramsTIF\<close> and \<^verbatim>\<open>JunctionTIF\<close>: the unit size of each type.  The base type
  (\<^verbatim>\<open>ChannelTIF\<close>, unit 0) has no \<^verbatim>\<open>tp_new\<close> and therefore no instances, so it is not
  the type of any Channel in the store.  \<^verbatim>\<open>sizeof(int)\<close> is 4 on the platforms of the
  two event mechanisms.\<close>

datatype chantype = OctetsT | SocketsT | PortsT | DatagramsT | JunctionT

definition sizeof_int :: int where
  "sizeof_int = 4"

fun ti_unit :: "chantype \<Rightarrow> int" where
  "ti_unit OctetsT = 1"
| "ti_unit SocketsT = sizeof_int"
| "ti_unit PortsT = sizeof_int"
| "ti_unit DatagramsT = 1"
| "ti_unit JunctionT = 1"

datatype kcall = kc_pyalloc | kc_eof | kc_void | kc_other

text \<open>Modelled from the spec: \<^verbatim>\<open>struct Port\<close> is declared in port.h, which is not part
  of the sources.  The fields are the ones module.c reads and writes (\<^verbatim>\<open>point\<close>,
  \<^verbatim>\<open>cause\<close>, \<^verbatim>\<open>error\<close>, \<^verbatim>\<open>latches\<close>); the latches are a bitfield whose low nibble is
  the input side and whose high nibble is the output side.\<close>

record Port =
  point :: int
  cause :: kcall
  perror :: int
  latches :: "8 word"

datatype kfilter = EVFILT_READ | EVFILT_WRITE | EVFILT_USER

datatype kaction = EV_ADD | EV_DELETE | NOTE_TRIGGER

text \<open>A kevent, as a change submitted to the kernel (\<open>kev_action\<close> is \<open>Some\<close>) or as an event
  collected from it (\<open>kev_eof\<close> is the \<^verbatim>\<open>EV_EOF\<close> flag).\<close>

record kevent =
  kev_filter :: kfilter
  kev_ident :: int
  kev_action :: "kaction option"
  kev_eof :: bool
  kev_fflags :: int
  kev_udata :: "addr option"

text \<open>Modelled from the spec: \<^verbatim>\<open>struct Channel\<close> and \<^verbatim>\<open>struct Junction\<close> are declared
  in transit.h, which is not part of the sources.  The fields are the ones module.c names:
  the owning Port, the Junction back-reference, the resource and its window, the three 8-bit
  words \<open>state\<close>, \<open>delta\<close> and \<open>events\<close>, the link, the ring pointers \<open>prev\<close> and
  \<open>next\<close>, the transfer list pointer \<open>lltransfer\<close>, and for a Junction the members of
  \<^verbatim>\<open>choice.junction\<close> and its kevent array.\<close>

record Channel =
  ctype :: chantype
  port :: "addr option"
  junction :: "addr option"
  resource :: "pyobject option"
  window_start :: "32 word"
  window_stop :: "32 word"
  state :: "8 word"
  delta :: "8 word"
  events :: "8 word"
  link :: "nat option"
  prev :: "addr option"
  "next" :: "addr option"
  lltransfer :: "addr option"
  ntransits :: int
  ntransfers :: "32 word"
  will_wait :: int
  kevents :: "kevent list"

text \<open>The whole state: the Channels, the Ports, the changes submitted to the kernel so far,
  the descriptors closed so far, and whether the kernel refuses the next \<^verbatim>\<open>kevent\<close> call
  that triggers the wakeup filter.\<close>

record sys =
  chans :: "Channel list"
  ports :: "Port list"
  kernel_changes :: "kevent list"
  closed :: "int list"
  kevent_fails :: bool

definition chan :: "sys \<Rightarrow> addr \<Rightarrow> Channel" where
  "chan s a = chans s ! a"

definition valid :: "sys \<Rightarrow> addr \<Rightarrow> bool" where
  "valid s a \<longleftrightarrow> a < length (chans s)"

definition upd :: "addr \<Rightarrow> (Channel \<Rightarrow> Channel) \<Rightarrow> sys \<Rightarrow> sys" where
  "upd a f s = s\<lparr>chans := (chans s)[a := f (chans s ! a)]\<rparr>"

section \<open>The qualification words\<close>

text \<open>Modelled from the spec: the enumerations and the macros over the three words are
  defined in transit.h, which is not part of the sources.  A qualification is one of
  \<open>teq_terminate\<close> and \<open>teq_transfer\<close>; the state word holds the internal qualifications,
  the external qualifications and the control flags; the delta word holds the pending
  qualifications and the pending control flags at the positions of the internal ones, so
  that merging is a bitwise or.  The bit positions themselves are this model's choice.\<close>

definition teq_terminate :: nat where "teq_terminate = 0"
definition teq_transfer :: nat where "teq_transfer = 1"

definition tev_terminate :: nat where "tev_terminate = 0"
definition tev_transfer :: nat where "tev_transfer = 1"

definition ctl_polarity :: nat where "ctl_polarity = 0"
definition ctl_force :: nat where "ctl_force = 1"
definition ctl_requeue :: nat where "ctl_requeue = 2"
definition ctl_connect :: nat where "ctl_connect = 3"

definition Channel_IQualified :: "Channel \<Rightarrow> nat \<Rightarrow> bool" where
  "Channel_IQualified t q = bit (state t) q"

definition Channel_IQualify :: "nat \<Rightarrow> Channel \<Rightarrow> Channel" where
  "Channel_IQualify q t = t\<lparr>state := set_bit q (state t)\<rparr>"

definition Channel_INQualify :: "nat \<Rightarrow> Channel \<Rightarrow> Channel" where
  "Channel_INQualify q t = t\<lparr>state := unset_bit q (state t)\<rparr>"

definition Channel_XQualified :: "Channel \<Rightarrow> nat \<Rightarrow> bool" where
  "Channel_XQualified t q = bit (state t) (2 + q)"

definition Channel_XQualify :: "nat \<Rightarrow> Channel \<Rightarrow> Channel" where
  "Channel_XQualify q t = t\<lparr>state := set_bit (2 + q) (state t)\<rparr>"

definition Channel_XNQualify :: "nat \<Rightarrow> Channel \<Rightarrow> Channel" where
  "Channel_XNQualify q t = t\<lparr>state := unset_bit (2 + q) (state t)\<rparr>"

definition Channel_DQualified :: "Channel \<Rightarrow> nat \<Rightarrow> bool" where
  "Channel_DQualified t q = bit (delta t) q"

definition Channel_DQualify :: "nat \<Rightarrow> Channel \<Rightarrow> Channel" where
  "Channel_DQualify q t = t\<lparr>delta := set_bit q (delta t)\<rparr>"

definition Channel_GetControl :: "Channel \<Rightarrow> nat \<Rightarrow> bool" where
  "Channel_GetControl t c = bit (state t) (4 + c)"

definition Channel_SetControl :: "nat \<Rightarrow> Channel \<Rightarrow> Channel" where
  "Channel_SetControl c t = t\<lparr>state := set_bit (4 + c) (state t)\<rparr>"

definition Channel_NulControl :: "nat \<Rightarrow> Channel \<Rightarrow> Channel" where
  "Channel_NulControl c t = t\<lparr>state := unset_bit (4 + c) (state t)\<rparr>"

definition Channel_DControl :: "nat \<Rightarrow> Channel \<Rightarrow> Channel" where
  "Channel_DControl c t = t\<lparr>delta := set_bit (4 + c) (delta t)\<rparr>"

definition Channel_GetDelta :: "Channel \<Rightarrow> 8 word" where
  "Channel_GetDelta t = delta t"

definition Channel_ClearDelta :: "Channel \<Rightarrow> Channel" where
  "Channel_ClearDelta t = t\<lparr>delta := 0\<rparr>"

definition Channel_StateMerge :: "8 word \<Rightarrow> Channel \<Rightarrow> Channel" where
  "Channel_StateMerge d t = t\<lparr>state := state t OR d\<rparr>"

definition Channel_HasEvent :: "Channel \<Rightarrow> nat \<Rightarrow> bool" where
  "Channel_HasEvent t e = bit (events t) e"

definition Channel_NoteEvent :: "nat \<Rightarrow> Channel \<Rightarrow> Channel" where
  "Channel_NoteEvent e t = t\<lparr>events := set_bit e (events t)\<rparr>"

definition Channel_GetEvents :: "Channel \<Rightarrow> 8 word" where
  "Channel_GetEvents t = events t"

definition Channel_ClearEvents :: "Channel \<Rightarrow> Channel" where
  "Channel_ClearEvents t = t\<lparr>events := 0\<rparr>"

text \<open>Modelled from the spec: the event state of a Channel (transit.h is not part of the
  sources).  A transfer is ready when the internal and the external transfer qualifications
  are both set; a Channel should terminate when the internal or the external terminate
  qualification is set; it is terminating when it should terminate or its termination is
  pending in the delta word (\<^verbatim>\<open>_junction_flow\<close> reads \<^verbatim>\<open>Channel_Terminating(J)\<close> to see
  the terminate qualification that \<^verbatim>\<open>transit_terminate\<close> left in the delta of J).\<close>

definition Channel_ShouldTransfer :: "Channel \<Rightarrow> bool" where
  "Channel_ShouldTransfer t \<longleftrightarrow>
     Channel_IQualified t teq_transfer \<and> Channel_XQualified t teq_transfer"

definition Channel_ShouldTerminate :: "Channel \<Rightarrow> bool" where
  "Channel_ShouldTerminate t \<longleftrightarrow>
     Channel_IQualified t teq_terminate \<or> Channel_XQualified t teq_terminate"

definition Channel_EventState :: "Channel \<Rightarrow> bool" where
  "Channel_EventState t \<longleftrightarrow> Channel_ShouldTerminate t \<or> Channel_ShouldTransfer t"

definition Channel_Terminating :: "Channel \<Rightarrow> bool" where
  "Channel_Terminating t \<longleftrightarrow>
     Channel_ShouldTerminate t \<or> Channel_DQualified t teq_terminate"

definition Channel_Terminated :: "Channel \<Rightarrow> bool" where
  "Channel_Terminated t \<longleftrightarrow> Channel_ShouldTerminate t"

definition Channel_ShouldXConnect :: "Channel \<Rightarrow> bool" where
  "Channel_ShouldXConnect t \<longleftrightarrow> Channel_GetControl t ctl_connect"

text \<open>Modelled from the spec: the accessors of transit.h (not part of the sources) for the
  Junction back-reference, the resource and the window.  A Channel is attached when its
  Junction reference is not \<^verbatim>\<open>NULL\<close>; it receives when the polarity flag is set
  (\<^verbatim>\<open>INIT_INPUT_TRANSIT\<close> sets it); clearing the window resets it to \<open>(0, 0)\<close>,
  collapsing it moves the start to the stop, expanding it advances the stop.\<close>

definition Channel_Attached :: "Channel \<Rightarrow> bool" where
  "Channel_Attached t \<longleftrightarrow> junction t \<noteq> None"

definition Channel_Receives :: "Channel \<Rightarrow> bool" where
  "Channel_Receives t \<longleftrightarrow> Channel_GetControl t ctl_polarity"

definition p_input :: int where "p_input = 1"
definition p_output :: int where "p_output = - 1"

definition Channel_Polarity :: "Channel \<Rightarrow> int" where
  "Channel_Polarity t = (if Channel_GetControl t ctl_polarity then p_input else p_output)"

definition Channel_HasResource :: "Channel \<Rightarrow> bool" where
  "Channel_HasResource t \<longleftrightarrow> resource t \<noteq> None"

definition Channel_ClearWindow :: "Channel \<Rightarrow> Channel" where
  "Channel_ClearWindow t = t\<lparr>window_start := 0, window_stop := 0\<rparr>"

definition Channel_CollapseWindow :: "Channel \<Rightarrow> Channel" where
  "Channel_CollapseWindow t = t\<lparr>window_start := window_stop t\<rparr>"

definition Channel_ExpandWindow :: "32 word \<Rightarrow> Channel \<Rightarrow> Channel" where
  "Channel_ExpandWindow n t = t\<lparr>window_stop := window_stop t + n\<rparr>"

definition Channel_GetResourceSize :: "Channel \<Rightarrow> 32 word" where
  "Channel_GetResourceSize t = (case resource t of None \<Rightarrow> 0 | Some r \<Rightarrow> ob_len r)"

definition Channel_InCycle :: "Channel \<Rightarrow> bool" where
  "Channel_InCycle t \<longleftrightarrow> lltransfer t \<noteq> None"

definition Channel_ReleaseResource :: "Channel \<Rightarrow> Channel" where
  "Channel_ReleaseResource t =
     (if Channel_HasResource t then Channel_ClearWindow (t\<lparr>resource := None\<rparr>) else t)"

definition Channel_ReleaseLink :: "Channel \<Rightarrow> Channel" where
  "Channel_ReleaseLink t = (case link t of None \<Rightarrow> t | Some l \<Rightarrow> t\<lparr>link := None\<rparr>)"

text \<open>Modelled from the spec: the Port operations are defined in port.h and port.c, which are
  not part of the sources.  A Channel's Port is latched when the nibble of the Channel's
  polarity is not zero; \<open>port_unlatch\<close> clears the nibble of the given polarity (both for
  polarity 0) and closes the descriptor once no latch is left.\<close>

definition latch_mask :: "int \<Rightarrow> 8 word" where
  "latch_mask polarity = (if polarity > 0 then 15 else if polarity < 0 then 240 else 255)"

definition Port_Latched :: "Port \<Rightarrow> int \<Rightarrow> bool" where
  "Port_Latched p polarity \<longleftrightarrow> latches p AND latch_mask polarity \<noteq> 0"

definition port_unlatch :: "addr \<Rightarrow> int \<Rightarrow> sys \<Rightarrow> sys" where
  "port_unlatch a polarity s =
     (let p = ports s ! a in
      if latches p = 0 then s
      else
        let l = latches p AND NOT (latch_mask polarity) in
        if l = 0
        then s\<lparr>ports := (ports s)[a := p\<lparr>latches := 0, point := - 1\<rparr>],
               closed := closed s @ [point p]\<rparr>
        else s\<lparr>ports := (ports s)[a := p\<lparr>latches := l\<rparr>]\<rparr>)"

definition Channel_PortLatched :: "sys \<Rightarrow> addr \<Rightarrow> bool" where
  "Channel_PortLatched s t \<longleftrightarrow>
     (case port (chan s t) of
        None \<Rightarrow> False
      | Some a \<Rightarrow> a < length (ports s) \<and> Port_Latched (ports s ! a) (Channel_Polarity (chan s t)))"

definition Channel_PortError :: "sys \<Rightarrow> addr \<Rightarrow> bool" where
  "Channel_PortError s t \<longleftrightarrow>
     (case port (chan s t) of
        None \<Rightarrow> False
      | Some a \<Rightarrow> a < length (ports s) \<and> perror (ports s ! a) \<noteq> 0)"

definition Channel_unlatch :: "addr \<Rightarrow> int \<Rightarrow> sys \<Rightarrow> sys" where
  "Channel_unlatch t polarity s =
     (case port (chan s t) of
        None \<Rightarrow> s
      | Some a \<Rightarrow> if a < length (ports s) then port_unlatch a polarity s else s)"

section \<open>The ring and the transfer list\<close>

definition deref :: "sys \<Rightarrow> addr option \<Rightarrow> (addr \<Rightarrow> error + 'a) \<Rightarrow> error + 'a" where
  "deref s p k = (case p of None \<Rightarrow> Inl SegFault | Some a \<Rightarrow> if valid s a then k a else Inl SegFault)"

definition Junction_Cycling :: "Channel \<Rightarrow> bool" where
  "Junction_Cycling J \<longleftrightarrow> lltransfer J \<noteq> None"

definition Junction_IncrementChannelCount :: "Channel \<Rightarrow> Channel" where
  "Junction_IncrementChannelCount J = J\<lparr>ntransits := ntransits J + 1\<rparr>"

definition Junction_DecrementChannelCount :: "Channel \<Rightarrow> Channel" where
  "Junction_DecrementChannelCount J = J\<lparr>ntransits := ntransits J - 1\<rparr>"

definition Channel_SetNextTransfer :: "addr option \<Rightarrow> Channel \<Rightarrow> Channel" where
  "Channel_SetNextTransfer n t = t\<lparr>lltransfer := n\<rparr>"

text \<open>\<^verbatim>\<open>Junction_AddTransfer(J, t)\<close>: link \<open>t\<close> in front of the transfer list of \<open>J\<close>, only
  when the transfer pointer of \<open>t\<close> is \<^verbatim>\<open>NULL\<close>.\<close>

definition Junction_AddTransfer :: "addr \<Rightarrow> addr \<Rightarrow> sys \<Rightarrow> sys" where
  "Junction_AddTransfer J t s =
     (if lltransfer (chan s t) = None
      then
        let s1 = upd t (Channel_SetNextTransfer (lltransfer (chan s J))) s
        in upd J (Channel_SetNextTransfer (Some t)) s1
      else s)"

definition TRANSIT_DETACH_SEGMENT :: "addr \<Rightarrow> addr \<Rightarrow> sys \<Rightarrow> error + sys" where
  "TRANSIT_DETACH_SEGMENT FIRST LAST s =
     deref s (prev (chan s FIRST)) (\<lambda>f_prev.
     deref s (next (chan s LAST)) (\<lambda>l_next.
       let s1 = upd f_prev (\<lambda>c. c\<lparr>next := Some l_next\<rparr>) s;
           s2 = upd l_next (\<lambda>c. c\<lparr>prev := Some f_prev\<rparr>) s1
       in Inr s2))"

definition TRANSIT_ATTACH_SEGMENT_BEFORE :: "addr \<Rightarrow> addr \<Rightarrow> addr \<Rightarrow> sys \<Rightarrow> error + sys" where
  "TRANSIT_ATTACH_SEGMENT_BEFORE TARGET FIRST LAST s =
     deref s (prev (chan s TARGET)) (\<lambda>T_prev.
       let s1 = upd FIRST (\<lambda>c. c\<lparr>prev := Some T_prev\<rparr>) s;
           s2 = upd LAST (\<lambda>c. c\<lparr>next := Some TARGET\<rparr>) s1;
           s3 = upd TARGET (\<lambda>c. c\<lparr>prev := Some LAST\<rparr>) s2;
           s4 = upd T_prev (\<lambda>c. c\<lparr>next := Some FIRST\<rparr>) s3
       in Inr s4)"

definition TRANSIT_RELOCATE_SEGMENT_BEFORE :: "addr \<Rightarrow> addr \<Rightarrow> addr \<Rightarrow> sys \<Rightarrow> error + sys" where
  "TRANSIT_RELOCATE_SEGMENT_BEFORE TARGET FIRST LAST s =
     (case TRANSIT_DETACH_SEGMENT FIRST LAST s of
        Inl e \<Rightarrow> Inl e
      | Inr s1 \<Rightarrow> TRANSIT_ATTACH_SEGMENT_BEFORE TARGET FIRST LAST s1)"


definition TRANSIT_ATTACH :: "addr \<Rightarrow> sys \<Rightarrow> error + sys" where
  "TRANSIT_ATTACH TRANSIT s =
     deref s (junction (chan s TRANSIT)) (\<lambda>J. TRANSIT_ATTACH_SEGMENT_BEFORE J TRANSIT TRANSIT s)"

text \<open>\<^verbatim>\<open>junction_fall\<close> (kqueue build): nothing is written when the call is not forced and
  the Junction is not about to wait; otherwise the user filter is triggered.\<close>

definition trigger_kevent :: "addr \<Rightarrow> kevent" where
  "trigger_kevent J = \<lparr>kev_filter = EVFILT_USER, kev_ident = int J,
     kev_action = Some NOTE_TRIGGER, kev_eof = False, kev_fflags = 0, kev_udata = Some J\<rparr>"

definition junction_fall :: "addr \<Rightarrow> int \<Rightarrow> sys \<Rightarrow> sys \<times> int" where
  "junction_fall J force s =
     (if force = 0 \<and> will_wait (chan s J) = 0 then (s, 0)
      else if kevent_fails s then (s, - 1)
      else (s\<lparr>kernel_changes := kernel_changes s @ [trigger_kevent J]\<rparr>, 1))"

definition Channel_EnqueueDelta :: "addr \<Rightarrow> sys \<Rightarrow> error + sys" where
  "Channel_EnqueueDelta t s =
     (let J = junction (chan s t) in
      if Channel_GetDelta (chan s t) \<noteq> 0 \<and> Some t \<noteq> J
      then deref s J (\<lambda>Ja.
        case TRANSIT_RELOCATE_SEGMENT_BEFORE Ja t t s of
          Inl e \<Rightarrow> Inl e
        | Inr s1 \<Rightarrow> Inr (fst (junction_fall Ja 0 s1)))
      else Inr s)"

section \<open>Channel methods\<close>

definition transit_can_acquire :: "Channel \<Rightarrow> bool" where
  "transit_can_acquire t \<longleftrightarrow> \<not> Channel_IQualified t teq_transfer"

text \<open>\<^verbatim>\<open>PyObject_GetBuffer\<close> of CPython: \<open>None\<close> when the buffer is exported, otherwise the
  exception it sets: \<^verbatim>\<open>TypeError\<close> for an object without the buffer protocol,
  \<^verbatim>\<open>BufferError\<close> for a read-only buffer requested with \<^verbatim>\<open>PyBUF_WRITABLE\<close>.\<close>

definition PyObject_GetBuffer :: "pyobject \<Rightarrow> bool \<Rightarrow> error option" where
  "PyObject_GetBuffer ob writable =
     (if \<not> ob_buffer ob then Some TypeError
      else if writable \<and> \<not> ob_writable ob then Some BufferError
      else None)"

text \<open>\<^verbatim>\<open>transit_acquire\<close>: the result is the new state and either the exception raised or
  the object returned.\<close>

definition transit_acquire :: "addr \<Rightarrow> pyobject \<Rightarrow> sys \<Rightarrow> sys \<times> (error + pyval)" where
  "transit_acquire t res s =
     (if \<not> valid s t then (s, Inl SegFault)
      else if Channel_Terminating (chan s t) then (s, Inr PyNone)
      else if \<not> transit_can_acquire (chan s t) then (s, Inl ChannelResourceError)
      else
        let s1 = upd t (\<lambda>c. (Channel_ReleaseResource c)\<lparr>resource := Some res\<rparr>) s in
        case PyObject_GetBuffer res (Channel_Receives (chan s1 t)) of
          Some e \<Rightarrow> (upd t (\<lambda>c. c\<lparr>resource := None\<rparr>) s1, Inl e)
        | None \<Rightarrow>
            let s2 = upd t Channel_ClearWindow s1 in
            if junction (chan s2 t) \<noteq> None
            then
              (case Channel_EnqueueDelta t (upd t (Channel_DQualify teq_transfer) s2) of
                 Inl e \<Rightarrow> (s2, Inl e)
               | Inr s3 \<Rightarrow> (s3, Inr (PyChannel t)))
            else (upd t (Channel_IQualify teq_transfer) s2, Inr (PyChannel t)))"

text \<open>\<^verbatim>\<open>transit_transfer\<close>, the entry \<^verbatim>\<open>transfer\<close> of \<^verbatim>\<open>transit_methods\<close>: \<^verbatim>\<open>None\<close>
  without a resource or without a transfer event, otherwise the item of the resource at the
  slice of the window divided by the unit.  The window is unsigned, so the division is the
  unsigned one of C.\<close>

definition transit_transfer :: "Channel \<Rightarrow> pyval" where
  "transit_transfer t =
     (let unit = (word_of_int (ti_unit (ctype t)) :: 32 word) in
      if \<not> Channel_HasResource t \<or> \<not> Channel_HasEvent t tev_transfer then PyNone
      else
        (case resource t of
           None \<Rightarrow> PyNone
         | Some r \<Rightarrow> PyGetItemSlice r (window_start t div unit) (window_stop t div unit)))"

text \<open>\<^verbatim>\<open>datagrams_transfer\<close>, the entry \<^verbatim>\<open>transfer\<close> of \<^verbatim>\<open>datagrams_methods\<close>: the same
  guard, but the unit is the one of the \<^verbatim>\<open>DatagramArray\<close> held as resource.  The resource
  is cast to \<^verbatim>\<open>DatagramArray\<close> without a test.\<close>

definition datagrams_transfer :: "Channel \<Rightarrow> error + pyval" where
  "datagrams_transfer t =
     (if \<not> Channel_HasResource t \<or> \<not> Channel_HasEvent t tev_transfer then Inr PyNone
      else
        (case resource t of
           None \<Rightarrow> Inr PyNone
         | Some r \<Rightarrow>
             (case ob_dga r of
                None \<Rightarrow> Inl Undefined
              | Some unit \<Rightarrow>
                  if unit = 0 then Inl Undefined
                  else Inr (PyGetItemSlice r (window_start t div unit) (window_stop t div unit)))))"

section \<open>Junction methods\<close>

text \<open>\<^verbatim>\<open>junction_acquire\<close>.\<close>

definition junction_acquire :: "addr \<Rightarrow> pyarg \<Rightarrow> sys \<Rightarrow> sys \<times> (error + pyval)" where
  "junction_acquire J ob s =
     (case ob of
        ObOther \<Rightarrow> (s, Inl TypeError)
      | ObChannel t \<Rightarrow>
          if \<not> valid s J \<or> \<not> valid s t then (s, Inl SegFault)
          else if Channel_Terminating (chan s J) then (s, Inl ChannelTerminatedError)
          else if \<not> Channel_Attached (chan s t) then
            (if Channel_Terminated (chan s t) then (s, Inl ChannelTerminatedError)
             else
               let s1 = upd t (Channel_DControl ctl_connect) s;
                   s2 = upd t (\<lambda>c. c\<lparr>junction := Some J\<rparr>) s1
               in case TRANSIT_ATTACH t s2 of
                    Inl e \<Rightarrow> (s2, Inl e)
                  | Inr s3 \<Rightarrow> (upd J Junction_IncrementChannelCount s3, Inr (PyChannel t)))
          else if junction (chan s t) \<noteq> Some J then (s, Inl ChannelResourceError)
          else (s, Inr (PyChannel t)))"

text \<open>\<^verbatim>\<open>junction_transfer\<close>, the entry \<^verbatim>\<open>transfer\<close> of \<^verbatim>\<open>junction_methods\<close>: outside of
  a cycle the empty tuple, inside the iterator \<^verbatim>\<open>jxi\<close> of \<^verbatim>\<open>new_jxi\<close>, which holds the
  Junction and the first Channel of its transfer list.\<close>

definition new_jxi :: "addr \<Rightarrow> sys \<Rightarrow> pyval" where
  "new_jxi J s = PyJxi J (lltransfer (chan s J))"

definition junction_transfer :: "addr \<Rightarrow> sys \<Rightarrow> pyval" where
  "junction_transfer J s =
     (if \<not> Channel_InCycle (chan s J) then PyEmptyTuple else new_jxi J s)"

text \<open>The method \<^verbatim>\<open>transfer\<close> of a Channel, as Python finds it through \<^verbatim>\<open>tp_methods\<close>:
  \<^verbatim>\<open>datagrams_methods\<close> and \<^verbatim>\<open>junction_methods\<close> have an entry of their own;
  \<^verbatim>\<open>octets_methods\<close>, \<^verbatim>\<open>sockets_methods\<close> and \<^verbatim>\<open>ports_methods\<close> have none, so these types
  inherit the entry of \<^verbatim>\<open>transit_methods\<close> from their base type.\<close>

definition tp_transfer :: "addr \<Rightarrow> sys \<Rightarrow> error + pyval" where
  "tp_transfer a s =
     (case ctype (chan s a) of
        OctetsT \<Rightarrow> Inr (transit_transfer (chan s a))
      | SocketsT \<Rightarrow> Inr (transit_transfer (chan s a))
      | PortsT \<Rightarrow> Inr (transit_transfer (chan s a))
      | DatagramsT \<Rightarrow> datagrams_transfer (chan s a)
      | JunctionT \<Rightarrow> Inr (junction_transfer a s))"

text \<open>\<^verbatim>\<open>junction_force\<close>.\<close>

definition junction_force :: "addr \<Rightarrow> sys \<Rightarrow> sys \<times> pyval" where
  "junction_force J s =
     (if Channel_Terminating (chan s J) then (s, PyNone)
      else
        let (s1, r) = junction_fall J 1 s
        in (s1, if r = 0 then PyFalse else PyTrue))"

section \<open>The cycle\<close>

text \<open>Modelled from the spec: the Junction macros over the window and the counters are
  defined in transit.h, which is not part of the sources.  For a Junction the window stop is
  the size of the kevent array and the window start is the number of slots in use: the
  changes queued for the kernel, or the events collected from it.  A Junction should wait
  when its transfer list is empty.\<close>

definition Junction_ResetWindow :: "Channel \<Rightarrow> Channel" where
  "Junction_ResetWindow J = J\<lparr>window_start := 0\<rparr>"

definition Junction_NChanges :: "Channel \<Rightarrow> 32 word" where
  "Junction_NChanges J = window_start J"

definition Junction_NCollected :: "Channel \<Rightarrow> 32 word" where
  "Junction_NCollected J = window_start J"

definition Junction_SetNCollected :: "32 word \<Rightarrow> Channel \<Rightarrow> Channel" where
  "Junction_SetNCollected n J = J\<lparr>window_start := n\<rparr>"

definition Junction_MaxCollected :: "Channel \<Rightarrow> bool" where
  "Junction_MaxCollected J \<longleftrightarrow> window_start J = window_stop J"

definition Junction_ConsumeKEventSlot :: "Channel \<Rightarrow> Channel" where
  "Junction_ConsumeKEventSlot J = J\<lparr>window_start := window_start J + 1\<rparr>"

definition Junction_ShouldWait :: "sys \<Rightarrow> addr \<Rightarrow> bool" where
  "Junction_ShouldWait s J \<longleftrightarrow> lltransfer (chan s J) = Some J"

definition Junction_ResetTransferCount :: "Channel \<Rightarrow> Channel" where
  "Junction_ResetTransferCount J = J\<lparr>ntransfers := 0\<rparr>"

definition Junction_IncrementTransferCount :: "Channel \<Rightarrow> Channel" where
  "Junction_IncrementTransferCount J = J\<lparr>ntransfers := ntransfers J + 1\<rparr>"

text \<open>Modelled from the spec: \<^verbatim>\<open>io_status_t\<close> and the transfer functions of the interface
  tables are defined in port.h and port.c, which are not part of the sources.  A transfer
  function answers with one of three statuses and the number of bytes moved, and may record an
  error on the Port.\<close>

datatype io_status = io_flow | io_stop | io_terminate

text \<open>What the kernel answers during one cycle: the Port of a re-created kqueue, the
  batches of events of the successive collections, and the transfer function of each
  Channel.\<close>

record kernel =
  k_init :: Port
  k_events :: "kevent list list"
  k_io :: "addr \<Rightarrow> Port \<Rightarrow> 32 word \<Rightarrow> io_status \<times> 32 word \<times> Port"

definition junction_start_cycle :: "addr \<Rightarrow> sys \<Rightarrow> sys" where
  "junction_start_cycle J s = upd J (Channel_SetNextTransfer (Some J)) s"


text \<open>\<^verbatim>\<open>junction_kevent_change\<close> (kqueue build): submit the queued changes.\<close>

definition junction_kevent_change :: "addr \<Rightarrow> sys \<Rightarrow> sys" where
  "junction_kevent_change J s =
     (let nkevents = Junction_NChanges (chan s J);
          kevs = kevents (chan s J);
          s1 = upd J Junction_ResetWindow s
      in if nkevents \<noteq> 0
         then s1\<lparr>kernel_changes := kernel_changes s1 @ take (unat nkevents) kevs\<rparr>
         else s1)"

definition junction_current_kevent_slot :: "addr \<Rightarrow> sys \<Rightarrow> sys" where
  "junction_current_kevent_slot J s =
     (if Junction_MaxCollected (chan s J) then junction_kevent_change J s else s)"

definition Channel_GetKPoint :: "sys \<Rightarrow> addr \<Rightarrow> int" where
  "Channel_GetKPoint s t =
     (case port (chan s t) of
        None \<Rightarrow> - 1
      | Some a \<Rightarrow> if a < length (ports s) then point (ports s ! a) else - 1)"

definition filters :: "Channel \<Rightarrow> kfilter" where
  "filters t = (if Channel_GetControl t ctl_polarity then EVFILT_READ else EVFILT_WRITE)"

definition kfilter_cancel :: "sys \<Rightarrow> addr \<Rightarrow> kevent" where
  "kfilter_cancel s t = \<lparr>kev_filter = filters (chan s t), kev_ident = Channel_GetKPoint s t,
     kev_action = Some EV_DELETE, kev_eof = False, kev_fflags = 0, kev_udata = Some t\<rparr>"

definition kfilter_attach :: "sys \<Rightarrow> addr \<Rightarrow> kevent" where
  "kfilter_attach s t = \<lparr>kev_filter = filters (chan s t), kev_ident = Channel_GetKPoint s t,
     kev_action = Some EV_ADD, kev_eof = False, kev_fflags = 0, kev_udata = Some t\<rparr>"

text \<open>Filling the current slot of the kevent array and consuming it; the array is flushed
  first when it is full.  Writing past the array is a fault.\<close>

definition put_kevent :: "addr \<Rightarrow> kevent \<Rightarrow> sys \<Rightarrow> error + sys" where
  "put_kevent J kev s =
     (let s1 = junction_current_kevent_slot J s;
          i = unat (window_start (chan s1 J))
      in if i < length (kevents (chan s1 J))
         then Inr (upd J (\<lambda>c. Junction_ConsumeKEventSlot (c\<lparr>kevents := (kevents c)[i := kev]\<rparr>)) s1)
         else Inl SegFault)"

text \<open>\<^verbatim>\<open>junction_init\<close> (kqueue build): the kernel hands out the Port of a new kqueue; when
  that succeeded the user filter is registered.\<close>

definition user_kevent :: "addr \<Rightarrow> kevent" where
  "user_kevent J = \<lparr>kev_filter = EVFILT_USER, kev_ident = int J,
     kev_action = Some EV_ADD, kev_eof = False, kev_fflags = 0, kev_udata = Some J\<rparr>"

definition junction_init :: "addr \<Rightarrow> Port \<Rightarrow> sys \<Rightarrow> sys" where
  "junction_init J p s =
     (case port (chan s J) of
        None \<Rightarrow> s
      | Some a \<Rightarrow>
          let s1 = s\<lparr>ports := (ports s)[a := p]\<rparr>
          in if perror p \<noteq> 0 then s1
             else s1\<lparr>kernel_changes := kernel_changes s1 @ [user_kevent J]\<rparr>)"

text \<open>The two walks over the ring by \<open>next\<close>, in \<^verbatim>\<open>junction_reload\<close> and in
  \<^verbatim>\<open>_junction_terminate\<close>.  A ring that does not lead back to the Junction makes them run
  forever, which is the value \<open>None\<close>.\<close>

partial_function (option) junction_reload_loop :: "addr \<Rightarrow> addr option \<Rightarrow> sys \<Rightarrow> (error + sys) option"
where
  "junction_reload_loop J p s =
     (case p of
        None \<Rightarrow> Some (Inl SegFault)
      | Some t \<Rightarrow>
          if t = J then Some (Inr s)
          else if \<not> valid s t then Some (Inl SegFault)
          else junction_reload_loop J (next (chan s t)) (upd t (Channel_DControl ctl_connect) s))"

declare junction_reload_loop.simps [code]

definition junction_reload :: "addr \<Rightarrow> sys \<Rightarrow> (error + sys) option" where
  "junction_reload J s = junction_reload_loop J (next (chan s J)) s"

partial_function (option) junction_terminate_loop :: "addr \<Rightarrow> addr option \<Rightarrow> sys \<Rightarrow> (error + sys) option"
where
  "junction_terminate_loop J p s =
     (case p of
        None \<Rightarrow> Some (Inl SegFault)
      | Some t \<Rightarrow>
          if t = J then Some (Inr s)
          else if \<not> valid s t then Some (Inl SegFault)
          else junction_terminate_loop J (next (chan s t)) (upd t (Channel_DQualify teq_terminate) s))"

declare junction_terminate_loop.simps [code]

text \<open>\<^verbatim>\<open>_junction_terminate\<close>.\<close>

definition junction_terminate :: "addr \<Rightarrow> sys \<Rightarrow> (error + sys) option" where
  "junction_terminate J s =
     (let s1 = upd J (Channel_IQualify teq_terminate) s
      in case junction_terminate_loop J (next (chan s1 J)) s1 of
           None \<Rightarrow> None
         | Some (Inl e) \<Rightarrow> Some (Inl e)
         | Some (Inr s2) \<Rightarrow> Some (Inr (Channel_unlatch J 0 s2)))"

text \<open>\<^verbatim>\<open>junction_transfer_delta\<close>: the walk behind the Junction.  Every turn clears a delta
  word that was not zero, so the walk ends.\<close>

definition transfer_delta_channel :: "addr \<Rightarrow> addr \<Rightarrow> sys \<Rightarrow> sys" where
  "transfer_delta_channel J t s =
     (let s1 = upd t (Channel_StateMerge (Channel_GetDelta (chan s t))) s;
          s2 = upd t Channel_ClearDelta s1
      in Junction_AddTransfer J t s2)"

definition pending_deltas :: "sys \<Rightarrow> nat" where
  "pending_deltas s = length (filter (\<lambda>d. d \<noteq> 0) (map delta (chans s)))"

lemma filter_update_less:
  "i < length xs \<Longrightarrow> P (xs ! i) \<Longrightarrow> \<not> P y \<Longrightarrow>
     length (filter P (xs[i := y])) < length (filter P xs)"
proof (induction xs arbitrary: i)
  case Nil
  then show ?case by simp
next
  case (Cons x xs)
  then show ?case by (cases i) auto
qed

lemma map_delta_upd:
  "map delta (chans (upd a f s)) = (map delta (chans s))[a := delta (f (chans s ! a))]"
  by (simp add: upd_def map_update)

lemma map_delta_upd_same:
  assumes "\<And>c. delta (f c) = delta c"
  shows "map delta (chans (upd a f s)) = map delta (chans s)"
proof (cases "a < length (chans s)")
  case True
  then show ?thesis
    by (simp add: map_delta_upd assms list_update_same_conv)
next
  case False
  then show ?thesis by (simp add: upd_def list_update_beyond)
qed

lemma map_delta_AddTransfer:
  "map delta (chans (Junction_AddTransfer J t s)) = map delta (chans s)"
  by (simp add: Junction_AddTransfer_def Let_def map_delta_upd_same Channel_SetNextTransfer_def)

lemma map_delta_transfer_delta_channel:
  "map delta (chans (transfer_delta_channel J t s)) = (map delta (chans s))[t := 0]"
proof -
  have "map delta (chans (upd t Channel_ClearDelta (upd t (Channel_StateMerge d) s)))
      = (map delta (chans s))[t := 0]" for d
    by (simp add: map_delta_upd map_delta_upd_same Channel_ClearDelta_def Channel_StateMerge_def)
  then show ?thesis
    by (simp add: transfer_delta_channel_def Let_def map_delta_AddTransfer)
qed

lemma pending_deltas_transfer_delta_channel:
  "valid s t \<Longrightarrow> Channel_GetDelta (chan s t) \<noteq> 0 \<Longrightarrow>
     pending_deltas (transfer_delta_channel J t s) < pending_deltas s"
  unfolding pending_deltas_def map_delta_transfer_delta_channel
  by (rule filter_update_less) (simp_all add: valid_def chan_def Channel_GetDelta_def)

function junction_transfer_delta_loop :: "addr \<Rightarrow> addr option \<Rightarrow> sys \<Rightarrow> error + sys" where
  "junction_transfer_delta_loop J p s =
     (case p of
        None \<Rightarrow> Inl SegFault
      | Some t \<Rightarrow>
          if \<not> valid s t then Inl SegFault
          else if Channel_GetDelta (chan s t) = 0 then Inr s
          else junction_transfer_delta_loop J
                 (prev (chan (transfer_delta_channel J t s) t))
                 (transfer_delta_channel J t s))"
  by pat_completeness auto

termination
  by (relation "measure (\<lambda>(J, p, s). pending_deltas s)")
     (simp_all add: pending_deltas_transfer_delta_channel)

declare junction_transfer_delta_loop.simps [simp del]

definition junction_transfer_delta :: "addr \<Rightarrow> sys \<Rightarrow> error + sys" where
  "junction_transfer_delta J s =
     (if \<not> valid s J then Inl SegFault
      else junction_transfer_delta_loop J (prev (chan s J)) s)"

text \<open>\<^verbatim>\<open>junction_apply_delta\<close>: the body of the loop for one Channel of the transfer list,
  then the loop.  A Channel without an event is spliced out of the list; \<open>prv\<close> is the last
  Channel that was kept.  A transfer list that does not lead back to the Junction makes the
  loop run forever, which is the value \<open>None\<close>.\<close>

definition junction_apply_delta_channel :: "addr \<Rightarrow> addr \<Rightarrow> sys \<Rightarrow> error + sys" where
  "junction_apply_delta_channel J t s =
     (case (if Channel_ShouldXConnect (chan s t)
            then (case (if Channel_PortError s t \<or> \<not> Channel_PortLatched s t
                        then Inr (upd t (Channel_XQualify teq_terminate) s)
                        else if \<not> Channel_GetControl (chan s t) ctl_requeue
                        then put_kevent J (kfilter_attach s t) s
                        else Inr s) of
                    Inl e \<Rightarrow> Inl e
                  | Inr s1 \<Rightarrow> Inr (upd t (Channel_NulControl ctl_connect) s1))
            else Inr s) of
        Inl e \<Rightarrow> Inl e
      | Inr s2 \<Rightarrow>
          Inr (if Channel_GetControl (chan s2 t) ctl_force
               then upd t (Channel_XQualify teq_transfer) (upd t (Channel_NulControl ctl_force) s2)
               else s2))"

partial_function (option) junction_apply_delta_loop :: "addr \<Rightarrow> addr \<Rightarrow> sys \<Rightarrow> (error + sys) option"
where
  "junction_apply_delta_loop J prv s =
     (case lltransfer (chan s prv) of
        None \<Rightarrow> Some (Inl SegFault)
      | Some t \<Rightarrow>
          if t = J then Some (Inr s)
          else if \<not> valid s t then Some (Inl SegFault)
          else
            (case junction_apply_delta_channel J t s of
               Inl e \<Rightarrow> Some (Inl e)
             | Inr s1 \<Rightarrow>
                 if Channel_EventState (chan s1 t) then junction_apply_delta_loop J t s1
                 else junction_apply_delta_loop J prv
                        (upd t (Channel_SetNextTransfer None)
                          (upd prv (Channel_SetNextTransfer (lltransfer (chan s1 t))) s1))))"

declare junction_apply_delta_loop.simps [code]

definition junction_apply_delta :: "addr \<Rightarrow> sys \<Rightarrow> (error + sys) option" where
  "junction_apply_delta J s =
     (case junction_apply_delta_loop J J (upd J Junction_ResetWindow s) of
        None \<Rightarrow> None
      | Some (Inl e) \<Rightarrow> Some (Inl e)
      | Some (Inr s1) \<Rightarrow> Some (Inr (junction_kevent_change J s1)))"

text \<open>\<^verbatim>\<open>junction_kevent_collect\<close> (kqueue build): the kernel fills the kevent array with at
  most as many events as the array holds.\<close>

definition junction_kevent_collect :: "addr \<Rightarrow> bool \<Rightarrow> kevent list \<Rightarrow> sys \<Rightarrow> sys" where
  "junction_kevent_collect J waiting evs s =
     (let kevs = take (min (unat (window_stop (chan s J))) (length (kevents (chan s J)))) evs
      in upd J (\<lambda>c. Junction_SetNCollected (of_nat (length kevs))
                      (c\<lparr>kevents := kevs @ drop (length kevs) (kevents c)\<rparr>)) s)"

definition Port_SetError :: "addr \<Rightarrow> int \<Rightarrow> kcall \<Rightarrow> sys \<Rightarrow> sys" where
  "Port_SetError t e c s =
     (case port (chan s t) of
        None \<Rightarrow> s
      | Some a \<Rightarrow> s\<lparr>ports := (ports s)[a := (ports s ! a)\<lparr>perror := e, cause := c\<rparr>]\<rparr>)"

text \<open>\<^verbatim>\<open>junction_kevent_transform\<close> (kqueue build).\<close>

definition junction_kevent_transform_event :: "addr \<Rightarrow> kevent \<Rightarrow> addr \<Rightarrow> sys \<Rightarrow> sys" where
  "junction_kevent_transform_event J kev t s =
     (if kev_filter kev = EVFILT_WRITE \<and> kev_eof kev
      then
        Junction_AddTransfer J t
          (Port_SetError t (kev_fflags kev) kc_eof (upd t (Channel_XQualify teq_terminate) s))
      else
        let s1 = upd t (Channel_XQualify teq_transfer) s
        in if Channel_IQualified (chan s1 t) teq_transfer then Junction_AddTransfer J t s1
           else s1)"

fun junction_kevent_transform_loop :: "addr \<Rightarrow> kevent list \<Rightarrow> sys \<Rightarrow> error + sys" where
  "junction_kevent_transform_loop J [] s = Inr s"
| "junction_kevent_transform_loop J (kev # kevs) s =
     (case kev_udata kev of
        None \<Rightarrow> Inl SegFault
      | Some t \<Rightarrow>
          if t = J then junction_kevent_transform_loop J kevs s
          else if \<not> valid s t then Inl SegFault
          else junction_kevent_transform_loop J kevs (junction_kevent_transform_event J kev t s))"

definition junction_kevent_transform :: "addr \<Rightarrow> sys \<Rightarrow> error + sys" where
  "junction_kevent_transform J s =
     junction_kevent_transform_loop J
       (take (unat (Junction_NCollected (chan s J))) (kevents (chan s J))) s"

definition next_batch :: "kevent list list \<Rightarrow> kevent list" where
  "next_batch evs = (case evs of [] \<Rightarrow> [] | b # bs \<Rightarrow> b)"

text \<open>The collections of \<^verbatim>\<open>_junction_flow\<close>: one that may wait, then up to \<open>countdown\<close>
  more while the last one filled the array.\<close>

fun junction_flow_recollect :: "addr \<Rightarrow> nat \<Rightarrow> kevent list list \<Rightarrow> sys \<Rightarrow> error + sys" where
  "junction_flow_recollect J 0 evs s = Inr s"
| "junction_flow_recollect J (Suc countdown) evs s =
     (if Junction_MaxCollected (chan s J)
      then
        (case junction_kevent_transform J (junction_kevent_collect J False (next_batch evs) s) of
           Inl e \<Rightarrow> Inl e
         | Inr s1 \<Rightarrow> junction_flow_recollect J countdown (tl evs) s1)
      else Inr s)"

definition junction_flow_collect :: "addr \<Rightarrow> kevent list list \<Rightarrow> sys \<Rightarrow> error + sys" where
  "junction_flow_collect J evs s =
     (if \<not> Channel_Terminating (chan s J)
      then
        let s1 = junction_kevent_collect J (Junction_ShouldWait s J) (next_batch evs) s;
            s2 = upd J (\<lambda>c. c\<lparr>will_wait := 0\<rparr>) s1
        in case junction_kevent_transform J s2 of
             Inl e \<Rightarrow> Inl e
           | Inr s3 \<Rightarrow> junction_flow_recollect J 3 (tl evs) s3
      else Inr s)"

text \<open>The body of the transfer loop of \<^verbatim>\<open>_junction_flow\<close> for one Channel of the transfer
  list: termination preempts the transfer; otherwise the transfer function of the polarity
  runs on the rest of the resource and its status is mapped to the qualifications.  The
  Sockets table has no output function.\<close>

definition io_defined :: "Channel \<Rightarrow> bool" where
  "io_defined t \<longleftrightarrow>
     ctype t \<noteq> JunctionT \<and> (ctype t = SocketsT \<longrightarrow> Channel_GetControl t ctl_polarity)"

definition junction_flow_status :: "addr \<Rightarrow> addr \<Rightarrow> io_status \<Rightarrow> sys \<Rightarrow> error + sys" where
  "junction_flow_status J t stat s =
     (case stat of
        io_flow \<Rightarrow> Inr (upd t (Channel_INQualify teq_transfer) s)
      | io_stop \<Rightarrow> Inr (upd t (Channel_XNQualify teq_transfer) s)
      | io_terminate \<Rightarrow>
          let s1 = upd t (Channel_NoteEvent tev_terminate) (upd t (Channel_XQualify teq_terminate) s)
          in if \<not> Channel_GetControl (chan s1 t) ctl_requeue
             then put_kevent J (kfilter_cancel s1 t) s1
             else Inr s1)"

definition junction_flow_transfer ::
  "addr \<Rightarrow> (addr \<Rightarrow> Port \<Rightarrow> 32 word \<Rightarrow> io_status \<times> 32 word \<times> Port) \<Rightarrow> addr \<Rightarrow> sys \<Rightarrow> error + sys"
where
  "junction_flow_transfer J io t s =
     (let s0 = upd J Junction_IncrementTransferCount s in
      if Channel_ShouldTerminate (chan s0 t) then
        (case (if \<not> Channel_GetControl (chan s0 t) ctl_requeue
               then put_kevent J (kfilter_cancel s0 t) s0
               else Inr s0) of
           Inl e \<Rightarrow> Inl e
         | Inr s1 \<Rightarrow> Inr (upd t (Channel_NoteEvent tev_terminate) s1))
      else if Channel_ShouldTransfer (chan s0 t) then
        (case port (chan s0 t) of
           None \<Rightarrow> Inl SegFault
         | Some pa \<Rightarrow>
             if \<not> pa < length (ports s0) \<or> \<not> io_defined (chan s0 t) then Inl SegFault
             else
               let rsize = Channel_GetResourceSize (chan s0 t);
                   pos = window_stop (chan s0 t);
                   request = rsize - pos;
                   s1 = upd t (Channel_NoteEvent tev_transfer) s0;
                   (stat, xfer, p) = io t (ports s1 ! pa) request;
                   s2 = s1\<lparr>ports := (ports s1)[pa := p]\<rparr>;
                   s3 = upd t (Channel_ExpandWindow xfer) s2
               in junction_flow_status J t stat s3)
      else Inr s0)"

partial_function (option) junction_flow_transfers ::
  "addr \<Rightarrow> (addr \<Rightarrow> Port \<Rightarrow> 32 word \<Rightarrow> io_status \<times> 32 word \<times> Port) \<Rightarrow> addr option \<Rightarrow> sys
     \<Rightarrow> (error + sys) option"
where
  "junction_flow_transfers J io p s =
     (case p of
        None \<Rightarrow> Some (Inl SegFault)
      | Some t \<Rightarrow>
          if t = J then Some (Inr s)
          else if \<not> valid s t then Some (Inl SegFault)
          else
            (case junction_flow_transfer J io t s of
               Inl e \<Rightarrow> Some (Inl e)
             | Inr s1 \<Rightarrow> junction_flow_transfers J io (lltransfer (chan s1 t)) s1))"

declare junction_flow_transfers.simps [code]

text \<open>The body of the transfer loop run on the Channels \<open>ts\<close> in this order.  When \<open>ts\<close> are
  the Channels in front of \<open>t\<close> on the transfer list, this is the state in which the loop
  reaches \<open>t\<close>.\<close>

fun junction_flow_transfer_each ::
  "addr \<Rightarrow> (addr \<Rightarrow> Port \<Rightarrow> 32 word \<Rightarrow> io_status \<times> 32 word \<times> Port) \<Rightarrow> addr list \<Rightarrow> sys
     \<Rightarrow> error + sys"
where
  "junction_flow_transfer_each J io [] s = Inr s"
| "junction_flow_transfer_each J io (t # ts) s =
     (case junction_flow_transfer J io t s of
        Inl e \<Rightarrow> Inl e
      | Inr s1 \<Rightarrow> junction_flow_transfer_each J io ts s1)"

text \<open>\<^verbatim>\<open>_junction_flow\<close>.\<close>

definition junction_flow :: "addr \<Rightarrow> kernel \<Rightarrow> sys \<Rightarrow> (error + sys) option" where
  "junction_flow J k s =
     (let s0 = junction_start_cycle J s in
      case (if Channel_Terminating (chan s0 J) then junction_terminate J s0
            else if \<not> Channel_PortLatched s0 J
            then junction_reload J (junction_init J (k_init k) s0)
            else Some (Inr s0)) of
        None \<Rightarrow> None
      | Some (Inl e) \<Rightarrow> Some (Inl e)
      | Some (Inr s1) \<Rightarrow>
          (case junction_transfer_delta J (upd J Channel_ClearDelta s1) of
             Inl e \<Rightarrow> Some (Inl e)
           | Inr s2 \<Rightarrow>
               let s3 = (if Junction_ShouldWait s2 J then upd J (\<lambda>c. c\<lparr>will_wait := 1\<rparr>) s2
                         else s2)
               in case junction_apply_delta J s3 of
                    None \<Rightarrow> None
                  | Some (Inl e) \<Rightarrow> Some (Inl e)
                  | Some (Inr s4) \<Rightarrow>
                      (case junction_flow_collect J (k_events k) s4 of
                         Inl e \<Rightarrow> Some (Inl e)
                       | Inr s5 \<Rightarrow>
                           let s6 = upd J Junction_ResetWindow s5
                           in case junction_flow_transfers J (k_io k) (lltransfer (chan s6 J)) s6 of
                                None \<Rightarrow> None
                              | Some (Inl e) \<Rightarrow> Some (Inl e)
                              | Some (Inr s7) \<Rightarrow>
                                  Some (Inr (if \<not> Channel_Terminating (chan s7 J)
                                             then junction_kevent_change J s7
                                             else s7)))))"





lemma lltransfer_release [simp]:
  "lltransfer (Channel_ReleaseResource c) = lltransfer c"
  "lltransfer (Channel_ReleaseLink c) = lltransfer c"
  "lltransfer (Channel_CollapseWindow c) = lltransfer c"
  "lltransfer (Channel_ClearEvents c) = lltransfer c"
  "lltransfer (Junction_DecrementChannelCount c) = lltransfer c"
  by (simp_all add: Channel_ReleaseResource_def Channel_ReleaseLink_def Channel_ClearWindow_def
      Channel_CollapseWindow_def Channel_ClearEvents_def Junction_DecrementChannelCount_def
      split: option.split)

lemma chans_Channel_unlatch [simp]: "chans (Channel_unlatch t p s) = chans s"
  by (simp add: Channel_unlatch_def port_unlatch_def Let_def split: option.split)







text \<open>\<^verbatim>\<open>junction_enter\<close> and \<^verbatim>\<open>junction_exit\<close>: the new state and either the exception raised
  or the object returned; \<open>None\<close> when the cycle never returns.\<close>

definition junction_enter :: "addr \<Rightarrow> kernel \<Rightarrow> sys \<Rightarrow> (sys \<times> (error + pyval)) option" where
  "junction_enter J k s =
     (if Channel_Terminating (chan s J) \<and> \<not> Channel_PortLatched s J
      then Some (s, Inl ChannelTerminatedError)
      else if Channel_InCycle (chan s J) then Some (s, Inl RuntimeError)
      else
        (case junction_flow J k s of
           None \<Rightarrow> None
         | Some (Inl e) \<Rightarrow> Some (s, Inl e)
         | Some (Inr s1) \<Rightarrow> Some (s1, Inr (PyChannel J))))"


section \<open>Reading the linked structures\<close>

text \<open>\<open>transfer_list s p xs J\<close>: following the transfer pointers from \<open>p\<close> visits exactly
  the Channels \<open>xs\<close>, none of them the Junction, and then arrives at the Junction \<open>J\<close>, which
  ends the list.\<close>

fun transfer_list :: "sys \<Rightarrow> addr option \<Rightarrow> addr list \<Rightarrow> addr \<Rightarrow> bool" where
  "transfer_list s p [] J \<longleftrightarrow> p = Some J"
| "transfer_list s p (x # xs) J \<longleftrightarrow>
     p = Some x \<and> x \<noteq> J \<and> valid s x \<and> transfer_list s (lltransfer (chan s x)) xs J"

text \<open>\<open>ring_behind s p ts z\<close>: walking the ring backward by \<open>prev\<close> from \<open>p\<close> visits the
  Channels \<open>ts\<close> and then arrives at \<open>z\<close>.\<close>

fun ring_behind :: "sys \<Rightarrow> addr option \<Rightarrow> addr list \<Rightarrow> addr \<Rightarrow> bool" where
  "ring_behind s p [] z \<longleftrightarrow> p = Some z"
| "ring_behind s p (t # ts) z \<longleftrightarrow>
     p = Some t \<and> valid s t \<and> ring_behind s (prev (chan s t)) ts z"

text \<open>The changes a Junction has emitted: those submitted to the kernel, then those queued
  in its kevent array.\<close>

definition emitted :: "sys \<Rightarrow> addr \<Rightarrow> kevent list" where
  "emitted s J =
     kernel_changes s @ take (unat (Junction_NChanges (chan s J))) (kevents (chan s J))"


text \<open>The kevent array of a Junction is as long as the window stop says, is not empty, and
  the slots in use lie in it.\<close>

definition kevents_ok :: "sys \<Rightarrow> addr \<Rightarrow> bool" where
  "kevents_ok s J \<longleftrightarrow>
     length (kevents (chan s J)) = unat (window_stop (chan s J))
     \<and> window_start (chan s J) \<le> window_stop (chan s J)
     \<and> window_stop (chan s J) \<noteq> 0"

text \<open>Two states with the same Channels on the same transfer lists and with the same events:
  the stores are equally long and agree on every transfer pointer and every events word.\<close>

definition same_links :: "sys \<Rightarrow> sys \<Rightarrow> bool" where
  "same_links s s' \<longleftrightarrow>
     length (chans s') = length (chans s)
     \<and> (\<forall>a < length (chans s).
           lltransfer (chans s' ! a) = lltransfer (chans s ! a)
           \<and> events (chans s' ! a) = events (chans s ! a))"





text \<open>As \<open>same_links\<close>, but the events of the Channel \<open>t\<close> may differ.\<close>

definition same_links_except :: "addr \<Rightarrow> sys \<Rightarrow> sys \<Rightarrow> bool" where
  "same_links_except t s s' \<longleftrightarrow>
     length (chans s') = length (chans s)
     \<and> (\<forall>a < length (chans s).
           lltransfer (chans s' ! a) = lltransfer (chans s ! a)
           \<and> (a \<noteq> t \<longrightarrow> events (chans s' ! a) = events (chans s ! a)))"

section \<open>Example states\<close>

definition blank :: "chantype \<Rightarrow> Channel" where
  "blank ty = \<lparr>ctype = ty, port = None, junction = None, resource = None,
     window_start = 0, window_stop = 0, state = 0, delta = 0, events = 0, link = None,
     prev = None, next = None, lltransfer = None, ntransits = 0, ntransfers = 0,
     will_wait = 0, kevents = []\<rparr>"

definition bytes16 :: pyobject where
  "bytes16 = \<lparr>ob_id = 7, ob_buffer = True, ob_writable = True, ob_len = 16,
     ob_dga = None\<rparr>"

text \<open>A Junction at address 0 whose ring holds the Channels at addresses 1 and 2, outside of
  a cycle.\<close>

definition ex_junction :: Channel where
  "ex_junction = (blank JunctionT)\<lparr>port := Some 0, junction := Some 0, window_stop := 16,
     state := 24, prev := Some 2, next := Some 1, ntransits := 2\<rparr>"

definition ex_port :: Port where
  "ex_port = \<lparr>point = 3, cause = kc_other, perror = 0, latches = 1\<rparr>"

definition ex_sys :: "Channel \<Rightarrow> Channel \<Rightarrow> Channel \<Rightarrow> sys" where
  "ex_sys J a b = \<lparr>chans = [J, a, b], ports = [ex_port, ex_port, ex_port],
     kernel_changes = [], closed = [], kevent_fails = False\<rparr>"

definition ex_reader :: Channel where
  "ex_reader = (blank OctetsT)\<lparr>port := Some 1, junction := Some 0, state := 16,
     prev := Some 0, next := Some 2\<rparr>"

definition ex_writer :: Channel where
  "ex_writer = (blank OctetsT)\<lparr>port := Some 2, junction := Some 0,
     prev := Some 1, next := Some 0\<rparr>"

lemmas ex_defs = blank_def bytes16_def ex_junction_def ex_port_def ex_sys_def ex_reader_def
  ex_writer_def

lemmas word_defs = teq_terminate_def teq_transfer_def tev_terminate_def tev_transfer_def
  ctl_polarity_def ctl_force_def ctl_requeue_def ctl_connect_def

lemmas qual_defs = Channel_IQualified_def Channel_IQualify_def Channel_INQualify_def
  Channel_XQualified_def Channel_XQualify_def Channel_XNQualify_def Channel_DQualified_def
  Channel_DQualify_def Channel_GetControl_def Channel_SetControl_def Channel_NulControl_def
  Channel_DControl_def Channel_GetDelta_def Channel_ClearDelta_def Channel_StateMerge_def
  Channel_HasEvent_def Channel_NoteEvent_def Channel_GetEvents_def Channel_ClearEvents_def
  Channel_ShouldTransfer_def Channel_ShouldTerminate_def Channel_EventState_def
  Channel_Terminating_def Channel_Terminated_def Channel_ShouldXConnect_def

text \<open>A kernel with nothing to report: no events, and transfer functions that would block.\<close>

definition ex_kernel :: kernel where
  "ex_kernel = \<lparr>k_init = ex_port, k_events = [], k_io = (\<lambda>t p n. (io_stop, 0, p))\<rparr>"

text \<open>The same Junction inside a cycle, with a kevent array of 16 slots and the reader, which
  holds a resource and is ready to transfer, on its transfer list.\<close>

definition ex_cycling :: Channel where
  "ex_cycling = ex_junction\<lparr>lltransfer := Some 1, kevents := replicate 16 (trigger_kevent 0)\<rparr>"

definition ex_ready :: Channel where
  "ex_ready = ex_reader\<lparr>state := 26, resource := Some bytes16, lltransfer := Some 0\<rparr>"






text \<open>The reader inside a cycle after a transfer that exhausted its resource: the transfer
  event is recorded and the internal transfer qualification is cleared.  And an object that
  exports no buffer.\<close>

definition ex_exhausted :: Channel where
  "ex_exhausted = ex_reader\<lparr>state := 24, events := 2, resource := Some bytes16,
     window_stop := 16, lltransfer := Some 0\<rparr>"

definition ex_not_buffer :: pyobject where
  "ex_not_buffer = \<lparr>ob_id = 9, ob_buffer = False, ob_writable = False, ob_len = 0,
     ob_dga = None\<rparr>"

text \<open>A \<^verbatim>\<open>DatagramArray\<close> of four records of 536 bytes.\<close>

definition ex_datagrams :: pyobject where
  "ex_datagrams = \<lparr>ob_id = 11, ob_buffer = True, ob_writable = True, ob_len = 2144,
     ob_dga = Some 536\<rparr>"

text \<open>A transfer list with two members: the reader, then the writer, both holding a resource
  and ready to transfer.  The transfer function fills the reader without blocking, and
  reports an error on the writer after 5 bytes.\<close>

definition ex_first :: Channel where
  "ex_first = ex_ready\<lparr>lltransfer := Some 2\<rparr>"

definition ex_second :: Channel where
  "ex_second = ex_writer\<lparr>state := 10, resource := Some bytes16, lltransfer := Some 0\<rparr>"

definition ex_io :: "addr \<Rightarrow> Port \<Rightarrow> 32 word \<Rightarrow> io_status \<times> 32 word \<times> Port" where
  "ex_io t p n = (if t = 1 then io_flow else io_terminate, 5, ex_port)"

section \<open>The store\<close>

lemma chans_upd: "chans (upd a f s) = (chans s)[a := f (chans s ! a)]"
  by (simp add: upd_def)

lemma valid_upd [simp]: "valid (upd a f s) b = valid s b"
  by (simp add: valid_def upd_def)

lemma chan_upd_same [simp]: "valid s a \<Longrightarrow> chan (upd a f s) a = f (chan s a)"
  by (simp add: chan_def upd_def valid_def)

lemma chan_upd_other [simp]: "a \<noteq> b \<Longrightarrow> chan (upd a f s) b = chan s b"
  by (simp add: chan_def upd_def)

lemma chan_upd: "valid s a \<Longrightarrow> chan (upd a f s) b = (if a = b then f (chan s a) else chan s b)"
  by auto

lemma upd_fields [simp]:
  "ports (upd a f s) = ports s"
  "kernel_changes (upd a f s) = kernel_changes s"
  "closed (upd a f s) = closed s"
  "kevent_fails (upd a f s) = kevent_fails s"
  by (simp_all add: upd_def)

lemma bit_word8_set [simp]:
  "bit (set_bit m (w :: 8 word)) n \<longleftrightarrow> bit w n \<or> (m = n \<and> n < 8)"
  by (auto simp add: bit_set_bit_iff bit_imp_le_length dest: bit_imp_le_length)

lemma bit_word8_unset [simp]:
  "bit (unset_bit m (w :: 8 word)) n \<longleftrightarrow> bit w n \<and> m \<noteq> n"
  by (auto simp add: bit_unset_bit_iff)

section \<open>Acquiring a resource\<close>

text \<open>C4: on a Channel that is not terminating and whose internal transfer qualification is
  still set, \<^verbatim>\<open>acquire(resource)\<close> raises the resource violation and the whole state,
  hence the old resource, the window, the three words and the ring, is as before.\<close>

theorem transit_acquire_unexhausted:
  assumes "valid s t"
    and "\<not> Channel_Terminating (chan s t)"
    and "Channel_IQualified (chan s t) teq_transfer"
  shows "transit_acquire t res s = (s, Inl ChannelResourceError)"
  using assms by (simp add: transit_acquire_def transit_can_acquire_def)

theorem transit_acquire_unexhausted_witness:
  "valid (ex_sys ex_junction (ex_reader\<lparr>state := 18, resource := Some bytes16\<rparr>) ex_writer) 1
   \<and> \<not> Channel_Terminating
        (chan (ex_sys ex_junction (ex_reader\<lparr>state := 18, resource := Some bytes16\<rparr>) ex_writer) 1)
   \<and> Channel_IQualified
        (chan (ex_sys ex_junction (ex_reader\<lparr>state := 18, resource := Some bytes16\<rparr>) ex_writer) 1)
        teq_transfer
   \<and> transit_acquire 1 bytes16
        (ex_sys ex_junction (ex_reader\<lparr>state := 18, resource := Some bytes16\<rparr>) ex_writer)
      = (ex_sys ex_junction (ex_reader\<lparr>state := 18, resource := Some bytes16\<rparr>) ex_writer,
         Inl ChannelResourceError)"
proof -
  let ?s = "ex_sys ex_junction (ex_reader\<lparr>state := 18, resource := Some bytes16\<rparr>) ex_writer"
  have v: "valid ?s 1"
    by (simp add: valid_def ex_sys_def)
  have c: "chan ?s 1 = ex_reader\<lparr>state := 18, resource := Some bytes16\<rparr>"
    by (simp add: chan_def ex_sys_def)
  have n: "\<not> Channel_Terminating (chan ?s 1)"
    unfolding c by (simp add: qual_defs word_defs ex_reader_def blank_def bit_numeral_simps)
  have q: "Channel_IQualified (chan ?s 1) teq_transfer"
    unfolding c by (simp add: qual_defs word_defs ex_reader_def blank_def)
  show ?thesis
    using v n q transit_acquire_unexhausted [OF v n q, of bytes16] by simp
qed

text \<open>C5: on a terminating Channel \<^verbatim>\<open>acquire(resource)\<close> returns \<^verbatim>\<open>None\<close> without an
  exception, and the whole state is as before: nothing is borrowed, and the window, the
  state word and the delta word are untouched.\<close>

theorem transit_acquire_terminating:
  assumes "valid s t"
    and "Channel_Terminating (chan s t)"
  shows "transit_acquire t res s = (s, Inr PyNone)"
  using assms by (simp add: transit_acquire_def)

theorem transit_acquire_terminating_witness:
  "valid (ex_sys ex_junction (ex_reader\<lparr>delta := 1\<rparr>) ex_writer) 1
   \<and> Channel_Terminating (chan (ex_sys ex_junction (ex_reader\<lparr>delta := 1\<rparr>) ex_writer) 1)
   \<and> transit_acquire 1 bytes16 (ex_sys ex_junction (ex_reader\<lparr>delta := 1\<rparr>) ex_writer)
      = (ex_sys ex_junction (ex_reader\<lparr>delta := 1\<rparr>) ex_writer, Inr PyNone)"
proof -
  let ?s = "ex_sys ex_junction (ex_reader\<lparr>delta := 1\<rparr>) ex_writer"
  have v: "valid ?s 1"
    by (simp add: valid_def ex_sys_def)
  have c: "chan ?s 1 = ex_reader\<lparr>delta := 1\<rparr>"
    by (simp add: chan_def ex_sys_def)
  have n: "Channel_Terminating (chan ?s 1)"
    unfolding c by (simp add: qual_defs word_defs)
  show ?thesis
    using v n transit_acquire_terminating [OF v n, of bytes16] by simp
qed

section \<open>Forcing a Junction\<close>

lemma junction_fall_forced: "snd (junction_fall J 1 s) \<noteq> 0"
  by (simp add: junction_fall_def)

lemma junction_force_never_false: "snd (junction_force J s) \<noteq> PyFalse"
  using junction_fall_forced [of J s]
  by (auto simp add: junction_force_def split: prod.split)

text \<open>C7: on a Junction that is not terminating, \<^verbatim>\<open>force()\<close> is to return \<^verbatim>\<open>True\<close> when
  the Junction is waiting and \<^verbatim>\<open>False\<close> when it is not.  The code does not: here the Junction
  is neither terminating nor waiting, and \<^verbatim>\<open>junction_force\<close> answers \<^verbatim>\<open>True\<close>.  It tests the
  result of \<^verbatim>\<open>junction_fall\<close> against 0 to choose \<^verbatim>\<open>False\<close>, but calls it with the force
  argument set, and \<^verbatim>\<open>junction_fall\<close> returns 0 only when that argument is not set.\<close>

theorem junction_force_not_waiting:
  "\<not> Channel_Terminating (chan (ex_sys ex_junction ex_reader ex_writer) 0)
   \<and> will_wait (chan (ex_sys ex_junction ex_reader ex_writer) 0) = 0
   \<and> snd (junction_force 0 (ex_sys ex_junction ex_reader ex_writer)) = PyTrue"
  by (simp add: junction_force_def junction_fall_def chan_def ex_defs qual_defs word_defs)

section \<open>Observing a transfer\<close>

text \<open>C8, as stated, fails.  The transfer functions also answer \<^verbatim>\<open>None\<close> when the transfer
  event fired and the Channel holds no resource: here the reader has exhausted its resource
  in this cycle, and an \<^verbatim>\<open>acquire\<close> of an object without a buffer has failed and left it
  without a resource; the transfer event is still recorded.  And a Junction is a Channel
  whose \<^verbatim>\<open>transfer()\<close> never answers \<^verbatim>\<open>None\<close>: outside of a cycle, with no event recorded,
  it returns the empty tuple.\<close>

theorem tp_transfer_counterexample:
  "Channel_HasEvent (chan (ex_sys ex_cycling ex_exhausted ex_writer) 1) tev_transfer
   \<and> snd (transit_acquire 1 ex_not_buffer (ex_sys ex_cycling ex_exhausted ex_writer))
       = Inl TypeError
   \<and> Channel_HasEvent
        (chan (fst (transit_acquire 1 ex_not_buffer (ex_sys ex_cycling ex_exhausted ex_writer))) 1)
        tev_transfer
   \<and> tp_transfer 1
        (fst (transit_acquire 1 ex_not_buffer (ex_sys ex_cycling ex_exhausted ex_writer)))
       = Inr PyNone
   \<and> \<not> Channel_HasEvent (chan (ex_sys ex_junction ex_reader ex_writer) 0) tev_transfer
   \<and> tp_transfer 0 (ex_sys ex_junction ex_reader ex_writer) = Inr PyEmptyTuple"
  by code_simp

text \<open>C8, amended: for an Octets, Sockets, Ports or Datagrams Channel, \<^verbatim>\<open>transfer()\<close>
  returns \<^verbatim>\<open>None\<close> when no transfer event fired this cycle or no resource is held.  When
  a resource is held and a transfer event fired, it returns the slice of the resource from
  the window start divided by the unit to the window stop divided by the unit, where the
  unit is the unit size of the type for Octets, Sockets and Ports, and for Datagrams the
  unit of the records of the \<^verbatim>\<open>DatagramArray\<close> held as resource, which is not 0.  The
  \<^verbatim>\<open>transfer()\<close> of a Junction returns the iterator over its transfer list inside a cycle
  and the empty tuple outside.\<close>

theorem tp_transfer_slice:
  "(ctype (chan s a) \<noteq> JunctionT \<longrightarrow>
      resource (chan s a) = None \<or> \<not> Channel_HasEvent (chan s a) tev_transfer \<longrightarrow>
      tp_transfer a s = Inr PyNone)
   \<and> (ctype (chan s a) \<in> {OctetsT, SocketsT, PortsT} \<longrightarrow>
      resource (chan s a) = Some r \<longrightarrow> Channel_HasEvent (chan s a) tev_transfer \<longrightarrow>
      tp_transfer a s = Inr (PyGetItemSlice r
        (window_start (chan s a) div word_of_int (ti_unit (ctype (chan s a))))
        (window_stop (chan s a) div word_of_int (ti_unit (ctype (chan s a))))))
   \<and> (ctype (chan s a) = DatagramsT \<longrightarrow>
      resource (chan s a) = Some r \<longrightarrow> Channel_HasEvent (chan s a) tev_transfer \<longrightarrow>
      ob_dga r = Some u \<longrightarrow> u \<noteq> 0 \<longrightarrow>
      tp_transfer a s = Inr (PyGetItemSlice r
        (window_start (chan s a) div u) (window_stop (chan s a) div u)))
   \<and> (ctype (chan s a) = JunctionT \<longrightarrow>
      tp_transfer a s =
        Inr (if Channel_InCycle (chan s a) then PyJxi a (lltransfer (chan s a))
             else PyEmptyTuple))"
  by (cases "ctype (chan s a)")
    (auto simp add: tp_transfer_def transit_transfer_def datagrams_transfer_def
      junction_transfer_def new_jxi_def Channel_HasResource_def Let_def)

theorem tp_transfer_slice_witness:
  "tp_transfer 1 (ex_sys ex_cycling
       (ex_reader\<lparr>ctype := SocketsT, resource := Some bytes16, window_start := 4,
          window_stop := 12, events := 2\<rparr>) ex_writer)
     = Inr (PyGetItemSlice bytes16 1 3)
   \<and> tp_transfer 1 (ex_sys ex_cycling
       (ex_reader\<lparr>ctype := SocketsT, resource := Some bytes16, window_start := 4,
          window_stop := 12, events := 0\<rparr>) ex_writer)
     = Inr PyNone
   \<and> tp_transfer 1 (ex_sys ex_cycling
       (ex_reader\<lparr>ctype := DatagramsT, resource := Some ex_datagrams, window_start := 0,
          window_stop := 1072, events := 2\<rparr>) ex_writer)
     = Inr (PyGetItemSlice ex_datagrams 0 2)
   \<and> tp_transfer 0 (ex_sys ex_cycling ex_reader ex_writer) = Inr (PyJxi 0 (Some 1))"
proof -
  let ?a = "ex_reader\<lparr>ctype := SocketsT, resource := Some bytes16, window_start := 4,
      window_stop := 12, events := 2\<rparr>"
  let ?b = "ex_reader\<lparr>ctype := SocketsT, resource := Some bytes16, window_start := 4,
      window_stop := 12, events := 0\<rparr>"
  let ?c = "ex_reader\<lparr>ctype := DatagramsT, resource := Some ex_datagrams, window_start := 0,
      window_stop := 1072, events := 2\<rparr>"
  have c: "chan (ex_sys J x y) 0 = J" "chan (ex_sys J x y) 1 = x" for J x y
    by (simp_all add: chan_def ex_sys_def)
  have e: "Channel_HasEvent ?a tev_transfer" "\<not> Channel_HasEvent ?b tev_transfer"
    "Channel_HasEvent ?c tev_transfer"
    by (simp_all add: Channel_HasEvent_def tev_transfer_def)
  have d: "ob_dga ex_datagrams = Some 536" "(1072 :: 32 word) div 536 = 2"
    by (simp_all add: ex_datagrams_def)
  have j: "ctype ex_cycling = JunctionT" "lltransfer ex_cycling = Some 1"
    by (simp_all add: ex_cycling_def ex_junction_def blank_def)
  have 1: "tp_transfer 1 (ex_sys ex_cycling ?a ex_writer) = Inr (PyGetItemSlice bytes16 1 3)"
    using tp_transfer_slice [of "ex_sys ex_cycling ?a ex_writer" 1 bytes16] e(1)
    unfolding c by (simp add: sizeof_int_def)
  have 2: "tp_transfer 1 (ex_sys ex_cycling ?b ex_writer) = Inr PyNone"
    using tp_transfer_slice [of "ex_sys ex_cycling ?b ex_writer" 1] e(2)
    unfolding c by simp
  have 3: "tp_transfer 1 (ex_sys ex_cycling ?c ex_writer) = Inr (PyGetItemSlice ex_datagrams 0 2)"
    using tp_transfer_slice [of "ex_sys ex_cycling ?c ex_writer" 1 ex_datagrams 536] e(3) d
    unfolding c by simp
  have 4: "tp_transfer 0 (ex_sys ex_cycling ex_reader ex_writer) = Inr (PyJxi 0 (Some 1))"
    using tp_transfer_slice [of "ex_sys ex_cycling ex_reader ex_writer" 0] j
    unfolding c by (simp add: Channel_InCycle_def)
  show ?thesis
    using 1 2 3 4 by simp
qed

section \<open>Attaching a Channel to a Junction\<close>

text \<open>C10, as stated, fails in its last part: \<^verbatim>\<open>junction_acquire\<close> also raises when the
  Junction itself is terminating, here for a fresh Channel that is attached to no Junction
  and is not terminated.\<close>

theorem junction_acquire_terminating_counterexample:
  "junction (chan (ex_sys (ex_junction\<lparr>state := 25\<rparr>) ex_reader (blank OctetsT)) 2) = None
   \<and> \<not> Channel_Terminated (chan (ex_sys (ex_junction\<lparr>state := 25\<rparr>) ex_reader (blank OctetsT)) 2)
   \<and> snd (junction_acquire 0 (ObChannel 2)
          (ex_sys (ex_junction\<lparr>state := 25\<rparr>) ex_reader (blank OctetsT)))
      = Inl ChannelTerminatedError"
  by (simp add: junction_acquire_def chan_def valid_def ex_defs qual_defs word_defs)

lemma junction_acquire_attached:
  assumes "valid s J" and "valid s t"
    and "\<not> Channel_Terminating (chan s J)"
    and "junction (chan s t) = Some J"
  shows "junction_acquire J (ObChannel t) s = (s, Inr (PyChannel t))"
  using assms by (simp add: junction_acquire_def Channel_Attached_def)

lemma junction_acquire_success:
  assumes "junction_acquire J (ObChannel t) s = (s1, Inr r)"
  shows "valid s1 J \<and> valid s1 t \<and> \<not> Channel_Terminating (chan s1 J)
     \<and> junction (chan s1 t) = Some J"
proof -
  have v: "valid s J" "valid s t" and n: "\<not> Channel_Terminating (chan s J)"
    using assms by (auto simp add: junction_acquire_def split: if_splits)
  show ?thesis
  proof (cases "Channel_Attached (chan s t)")
    case True
    then show ?thesis
      using assms v n by (auto simp add: junction_acquire_def split: if_splits)
  next
    case False
    let ?s2 = "upd t (\<lambda>c. c\<lparr>junction := Some J\<rparr>) (upd t (Channel_DControl ctl_connect) s)"
    obtain p where p: "prev (chan ?s2 J) = Some p" "valid s p"
      and s1: "s1 = upd J Junction_IncrementChannelCount
         (upd p (\<lambda>c. c\<lparr>next := Some t\<rparr>)
           (upd J (\<lambda>c. c\<lparr>prev := Some t\<rparr>)
             (upd t (\<lambda>c. c\<lparr>next := Some J\<rparr>)
               (upd t (\<lambda>c. c\<lparr>prev := Some p\<rparr>) ?s2))))"
      using assms v n False
      by (auto simp add: junction_acquire_def TRANSIT_ATTACH_def
          TRANSIT_ATTACH_SEGMENT_BEFORE_def deref_def Let_def
          split: if_splits option.splits sum.splits)
    have st: "state (chan s1 J) = state (chan s J)"
      and dl: "bit (delta (chan s1 J)) 0 = bit (delta (chan s J)) 0"
      and jn: "junction (chan s1 t) = Some J"
      unfolding s1 using v p(2)
      by (simp_all add: chan_upd Junction_IncrementChannelCount_def Channel_DControl_def
          ctl_connect_def)
    have "\<not> Channel_Terminating (chan s1 J)"
      using n st dl by (simp add: qual_defs word_defs)
    moreover have "valid s1 J" "valid s1 t"
      unfolding s1 using v by simp_all
    ultimately show ?thesis using jn by simp
  qed
qed

text \<open>C10, amended: a second \<^verbatim>\<open>Junction.acquire(channel)\<close> after a successful one raises
  no error, returns the Channel and leaves the whole state as it is (no second insertion into
  the ring, no connect flag, no increment of the count); on a well-formed ring an error is
  raised only when the Junction itself is terminating, when the Channel is attached to a
  different Junction, or when it was terminated while detached.\<close>

theorem junction_acquire_idempotent:
  assumes "valid s J" and "valid s t"
    and "\<exists>p. prev (chan s J) = Some p \<and> valid s p"
  shows "(\<forall>s1 r. junction_acquire J (ObChannel t) s = (s1, Inr r) \<longrightarrow>
            r = PyChannel t \<and> junction_acquire J (ObChannel t) s1 = (s1, Inr (PyChannel t)))
     \<and> (\<forall>e. snd (junction_acquire J (ObChannel t) s) = Inl e \<longrightarrow>
            (Channel_Terminating (chan s J) \<and> e = ChannelTerminatedError)
          \<or> (junction (chan s t) = None \<and> Channel_Terminated (chan s t)
               \<and> e = ChannelTerminatedError)
          \<or> (\<exists>J'. junction (chan s t) = Some J' \<and> J' \<noteq> J \<and> e = ChannelResourceError))"
proof (intro conjI allI impI)
  fix s1 r
  assume a: "junction_acquire J (ObChannel t) s = (s1, Inr r)"
  show "r = PyChannel t"
    using a by (auto simp add: junction_acquire_def Let_def split: if_splits sum.splits)
  show "junction_acquire J (ObChannel t) s1 = (s1, Inr (PyChannel t))"
    using junction_acquire_success [OF a] by (simp add: junction_acquire_attached)
next
  fix e
  assume e: "snd (junction_acquire J (ObChannel t) s) = Inl e"
  obtain p where p: "prev (chan s J) = Some p" "valid s p"
    using assms(3) by blast
  have pj: "prev (chan (upd t (\<lambda>c. c\<lparr>junction := Some J\<rparr>) (upd t (Channel_DControl ctl_connect) s)) J)
      = Some p"
    using p assms(1,2) by (simp add: chan_upd Channel_DControl_def)
  show "(Channel_Terminating (chan s J) \<and> e = ChannelTerminatedError)
          \<or> (junction (chan s t) = None \<and> Channel_Terminated (chan s t)
               \<and> e = ChannelTerminatedError)
          \<or> (\<exists>J'. junction (chan s t) = Some J' \<and> J' \<noteq> J \<and> e = ChannelResourceError)"
    using e assms(1,2) p pj
    by (auto simp add: junction_acquire_def Channel_Attached_def TRANSIT_ATTACH_def
        TRANSIT_ATTACH_SEGMENT_BEFORE_def deref_def Let_def chan_upd
        split: if_splits sum.splits)
qed

theorem junction_acquire_idempotent_witness:
  "valid (ex_sys (ex_junction\<lparr>prev := Some 1\<rparr>) (ex_reader\<lparr>next := Some 0\<rparr>) (blank OctetsT)) 0
   \<and> valid (ex_sys (ex_junction\<lparr>prev := Some 1\<rparr>) (ex_reader\<lparr>next := Some 0\<rparr>) (blank OctetsT)) 2
   \<and> snd (junction_acquire 0 (ObChannel 2)
        (ex_sys (ex_junction\<lparr>prev := Some 1\<rparr>) (ex_reader\<lparr>next := Some 0\<rparr>) (blank OctetsT)))
      = Inr (PyChannel 2)
   \<and> junction_acquire 0 (ObChannel 2)
        (fst (junction_acquire 0 (ObChannel 2)
          (ex_sys (ex_junction\<lparr>prev := Some 1\<rparr>) (ex_reader\<lparr>next := Some 0\<rparr>) (blank OctetsT))))
      = (fst (junction_acquire 0 (ObChannel 2)
          (ex_sys (ex_junction\<lparr>prev := Some 1\<rparr>) (ex_reader\<lparr>next := Some 0\<rparr>) (blank OctetsT))),
         Inr (PyChannel 2))"
proof -
  let ?s = "ex_sys (ex_junction\<lparr>prev := Some 1\<rparr>) (ex_reader\<lparr>next := Some 0\<rparr>) (blank OctetsT)"
  have v: "valid ?s 0" "valid ?s 2"
    by (simp_all add: valid_def ex_sys_def)
  have p: "\<exists>p. prev (chan ?s 0) = Some p \<and> valid ?s p"
    by (simp add: valid_def chan_def ex_sys_def ex_junction_def)
  have r: "snd (junction_acquire 0 (ObChannel 2) ?s) = Inr (PyChannel 2)"
    by (simp add: junction_acquire_def TRANSIT_ATTACH_def TRANSIT_ATTACH_SEGMENT_BEFORE_def
        deref_def Let_def Channel_Attached_def qual_defs word_defs chan_def valid_def upd_def
        ex_defs)
  show ?thesis
    using v r junction_acquire_idempotent [OF v p]
    by (cases "junction_acquire 0 (ObChannel 2) ?s") simp
qed

section \<open>Entering a cycle\<close>

text \<open>C6, as stated, fails: a Junction that is inside a cycle, terminating and whose Port is
  no longer latched (as \<^verbatim>\<open>_junction_terminate\<close> leaves it in the cycle that terminates
  the Junction) raises the terminated violation, not \<^verbatim>\<open>RuntimeError\<close>, because
  \<^verbatim>\<open>junction_enter\<close> tests termination first.\<close>

theorem junction_enter_nested_counterexample:
  "Channel_InCycle (chan (ex_sys (ex_junction\<lparr>state := 25, lltransfer := Some 0\<rparr>) ex_reader ex_writer
       \<lparr>ports := [ex_port\<lparr>latches := 0, point := - 1\<rparr>, ex_port, ex_port]\<rparr>) 0)
   \<and> junction_enter 0 ex_kernel
       (ex_sys (ex_junction\<lparr>state := 25, lltransfer := Some 0\<rparr>) ex_reader ex_writer
         \<lparr>ports := [ex_port\<lparr>latches := 0, point := - 1\<rparr>, ex_port, ex_port]\<rparr>)
     = Some (ex_sys (ex_junction\<lparr>state := 25, lltransfer := Some 0\<rparr>) ex_reader ex_writer
         \<lparr>ports := [ex_port\<lparr>latches := 0, point := - 1\<rparr>, ex_port, ex_port]\<rparr>,
        Inl ChannelTerminatedError)"
  by (simp add: junction_enter_def Channel_InCycle_def Channel_PortLatched_def Port_Latched_def
      Channel_Polarity_def latch_mask_def p_input_def chan_def ex_defs qual_defs word_defs)

text \<open>C6, amended: for a Junction that is inside a cycle, \<^verbatim>\<open>begin_cycle\<close> raises an error
  and leaves the whole state as it is, so no new cycle starts; the error is
  \<^verbatim>\<open>RuntimeError\<close>, except that a terminating Junction whose Port is unlatched raises the
  terminated violation.\<close>

theorem junction_enter_nested:
  assumes "Channel_InCycle (chan s J)"
  shows "junction_enter J k s =
     Some (s, Inl (if Channel_Terminating (chan s J) \<and> \<not> Channel_PortLatched s J
                   then ChannelTerminatedError else RuntimeError))"
  using assms by (simp add: junction_enter_def)

theorem junction_enter_nested_witness:
  "Channel_InCycle (chan (ex_sys (ex_junction\<lparr>lltransfer := Some 0\<rparr>) ex_reader ex_writer) 0)
   \<and> junction_enter 0 ex_kernel (ex_sys (ex_junction\<lparr>lltransfer := Some 0\<rparr>) ex_reader ex_writer)
     = Some (ex_sys (ex_junction\<lparr>lltransfer := Some 0\<rparr>) ex_reader ex_writer, Inl RuntimeError)"
proof -
  let ?s = "ex_sys (ex_junction\<lparr>lltransfer := Some 0\<rparr>) ex_reader ex_writer"
  have c: "Channel_InCycle (chan ?s 0)"
    by (simp add: Channel_InCycle_def chan_def ex_sys_def)
  have n: "\<not> Channel_Terminating (chan ?s 0)"
    by (simp add: chan_def ex_defs qual_defs word_defs)
  show ?thesis
    using c n junction_enter_nested [OF c, of ex_kernel] by simp
qed

section \<open>The transfer list\<close>

lemma transfer_list_not_Junction: "transfer_list s p xs J \<Longrightarrow> J \<notin> set xs"
  by (induction xs arbitrary: p) auto

lemma transfer_list_linked:
  "transfer_list s p xs J \<Longrightarrow> x \<in> set xs \<Longrightarrow> lltransfer (chan s x) \<noteq> None \<and> valid s x"
proof (induction xs arbitrary: p)
  case Nil
  then show ?case by simp
next
  case (Cons y ys)
  then show ?case by (cases ys) auto
qed

lemma transfer_list_unique:
  "transfer_list s p xs J \<Longrightarrow> transfer_list s p ys J \<Longrightarrow> xs = ys"
proof (induction xs arbitrary: p ys)
  case Nil
  then show ?case by (cases ys) auto
next
  case (Cons x xs)
  then show ?case by (cases ys) auto
qed

lemma transfer_list_suffix:
  "transfer_list s p (as @ x # bs) J \<Longrightarrow> transfer_list s (lltransfer (chan s x)) bs J"
  by (induction as arbitrary: p) auto

lemma transfer_list_distinct: "transfer_list s p xs J \<Longrightarrow> distinct xs"
proof (induction xs arbitrary: p)
  case Nil
  then show ?case by simp
next
  case (Cons x xs)
  have rest: "transfer_list s (lltransfer (chan s x)) xs J"
    using Cons.prems by simp
  have "x \<notin> set xs"
  proof
    assume "x \<in> set xs"
    then obtain as bs where xs: "xs = as @ x # bs"
      by (auto simp add: in_set_conv_decomp)
    have "transfer_list s (lltransfer (chan s x)) bs J"
      using rest unfolding xs by (rule transfer_list_suffix)
    then have "xs = bs"
      using rest by (rule transfer_list_unique [rotated])
    then show False
      using xs by simp
  qed
  then show ?case
    using Cons.IH [OF rest] by simp
qed

lemma transfer_list_frame:
  assumes "\<And>x. x \<in> set xs \<Longrightarrow>
      valid s' x = valid s x \<and> lltransfer (chan s' x) = lltransfer (chan s x)"
  shows "transfer_list s' p xs J = transfer_list s p xs J"
  using assms by (induction xs arbitrary: p) auto

lemma valid_AddTransfer [simp]: "valid (Junction_AddTransfer J t s) a = valid s a"
  by (simp add: Junction_AddTransfer_def Let_def)

lemma Junction_AddTransfer_linked:
  "lltransfer (chan s t) \<noteq> None \<Longrightarrow> Junction_AddTransfer J t s = s"
  by (auto simp add: Junction_AddTransfer_def)

lemma Junction_AddTransfer_fresh:
  assumes "valid s J" and "valid s t" and "t \<noteq> J" and "lltransfer (chan s t) = None"
  shows "chan (Junction_AddTransfer J t s) a =
     (if a = J then (chan s J)\<lparr>lltransfer := Some t\<rparr>
      else if a = t then (chan s t)\<lparr>lltransfer := lltransfer (chan s J)\<rparr>
      else chan s a)"
  using assms
  by (simp add: Junction_AddTransfer_def Let_def chan_upd Channel_SetNextTransfer_def)

lemma Junction_AddTransfer_list:
  assumes "valid s J" and "valid s t"
    and "transfer_list s (lltransfer (chan s J)) xs J"
  shows "transfer_list (Junction_AddTransfer J t s) (lltransfer (chan (Junction_AddTransfer J t s) J))
      (if lltransfer (chan s t) = None then t # xs else xs) J"
proof (cases "lltransfer (chan s t)")
  case (Some n)
  then show ?thesis
    using assms(3) by (simp add: Junction_AddTransfer_linked)
next
  case None
  have J: "lltransfer (chan s J) \<noteq> None"
    using assms(3) by (cases xs) auto
  then have tJ: "t \<noteq> J"
    using None by auto
  have tx: "t \<notin> set xs"
    using transfer_list_linked [OF assms(3), of t] None by force
  have Jx: "J \<notin> set xs"
    using assms(3) by (rule transfer_list_not_Junction)
  note c = Junction_AddTransfer_fresh [OF assms(1,2) tJ None]
  have "transfer_list (Junction_AddTransfer J t s) (lltransfer (chan s J)) xs J"
    using assms(3) tx Jx
    by (subst transfer_list_frame [where s = s]) (auto simp add: c)
  then show ?thesis
    using None tJ assms(2) by (simp add: c)
qed

lemma Junction_AddTransfer_twice:
  assumes "valid s J" and "valid s t" and "lltransfer (chan s J) \<noteq> None"
  shows "Junction_AddTransfer J t (Junction_AddTransfer J t s) = Junction_AddTransfer J t s"
proof (cases "lltransfer (chan s t)")
  case (Some n)
  then show ?thesis
    by (simp add: Junction_AddTransfer_linked)
next
  case None
  then have tJ: "t \<noteq> J"
    using assms(3) by auto
  have "lltransfer (chan (Junction_AddTransfer J t s) t) \<noteq> None"
    using assms(3) tJ by (simp add: Junction_AddTransfer_fresh [OF assms(1,2) tJ None])
  then show ?thesis
    by (rule Junction_AddTransfer_linked)
qed

text \<open>C9: enqueueing any sequence of Channels, with repetitions, on a transfer list that
  ends at the Junction leaves a transfer list that ends at the Junction (no cycle), that
  holds every Channel at most once, and that holds the old list; a Channel that is already on
  the list is not linked again, and enqueueing the same Channel twice is the same as
  enqueueing it once.\<close>

theorem Junction_AddTransfer_once:
  assumes "valid s J"
    and "\<forall>t \<in> set ts. valid s t"
    and "transfer_list s (lltransfer (chan s J)) xs J"
  shows "(\<exists>ys. transfer_list (fold (Junction_AddTransfer J) ts s)
              (lltransfer (chan (fold (Junction_AddTransfer J) ts s) J)) ys J
            \<and> distinct ys \<and> set xs \<subseteq> set ys \<and> set ys \<subseteq> set xs \<union> set ts)
     \<and> (\<forall>t \<in> set xs. Junction_AddTransfer J t s = s)
     \<and> (\<forall>t \<in> set ts.
          Junction_AddTransfer J t (Junction_AddTransfer J t s) = Junction_AddTransfer J t s)"
proof (intro conjI ballI)
  show "\<exists>ys. transfer_list (fold (Junction_AddTransfer J) ts s)
              (lltransfer (chan (fold (Junction_AddTransfer J) ts s) J)) ys J
            \<and> distinct ys \<and> set xs \<subseteq> set ys \<and> set ys \<subseteq> set xs \<union> set ts"
    using assms
  proof (induction ts arbitrary: s xs)
    case Nil
    then show ?case
      by (auto intro: transfer_list_distinct)
  next
    case (Cons t ts)
    let ?s = "Junction_AddTransfer J t s"
    let ?xs = "if lltransfer (chan s t) = None then t # xs else xs"
    have l: "transfer_list ?s (lltransfer (chan ?s J)) ?xs J"
      using Cons.prems by (intro Junction_AddTransfer_list) auto
    have "\<exists>ys. transfer_list (fold (Junction_AddTransfer J) ts ?s)
              (lltransfer (chan (fold (Junction_AddTransfer J) ts ?s) J)) ys J
            \<and> distinct ys \<and> set ?xs \<subseteq> set ys \<and> set ys \<subseteq> set ?xs \<union> set ts"
      using Cons.prems l by (intro Cons.IH) auto
    then show ?case
      by (auto split: if_splits)
  qed
next
  fix t
  assume "t \<in> set xs"
  then show "Junction_AddTransfer J t s = s"
    using transfer_list_linked [OF assms(3)] by (simp add: Junction_AddTransfer_linked)
next
  fix t
  assume "t \<in> set ts"
  moreover have "lltransfer (chan s J) \<noteq> None"
    using assms(3) by (cases xs) auto
  ultimately show
    "Junction_AddTransfer J t (Junction_AddTransfer J t s) = Junction_AddTransfer J t s"
    using assms(1,2) by (intro Junction_AddTransfer_twice) auto
qed

theorem Junction_AddTransfer_once_witness:
  "valid (ex_sys (ex_junction\<lparr>lltransfer := Some 0\<rparr>) ex_reader ex_writer) 0
   \<and> valid (ex_sys (ex_junction\<lparr>lltransfer := Some 0\<rparr>) ex_reader ex_writer) 1
   \<and> valid (ex_sys (ex_junction\<lparr>lltransfer := Some 0\<rparr>) ex_reader ex_writer) 2
   \<and> transfer_list (ex_sys (ex_junction\<lparr>lltransfer := Some 0\<rparr>) ex_reader ex_writer)
        (lltransfer (chan (ex_sys (ex_junction\<lparr>lltransfer := Some 0\<rparr>) ex_reader ex_writer) 0)) [] 0
   \<and> (\<exists>ys. transfer_list
          (fold (Junction_AddTransfer 0) [1, 2, 1]
            (ex_sys (ex_junction\<lparr>lltransfer := Some 0\<rparr>) ex_reader ex_writer))
          (lltransfer (chan (fold (Junction_AddTransfer 0) [1, 2, 1]
            (ex_sys (ex_junction\<lparr>lltransfer := Some 0\<rparr>) ex_reader ex_writer)) 0)) ys 0
        \<and> distinct ys \<and> set ys \<subseteq> {1, 2})"
proof -
  let ?s = "ex_sys (ex_junction\<lparr>lltransfer := Some 0\<rparr>) ex_reader ex_writer"
  have v: "valid ?s 0" and vs: "\<forall>t \<in> set [1, 2, 1]. valid ?s t"
    by (simp_all add: valid_def ex_sys_def)
  have l: "transfer_list ?s (lltransfer (chan ?s 0)) [] 0"
    by (simp add: chan_def ex_sys_def)
  show ?thesis
    using v vs l Junction_AddTransfer_once [OF v vs l] by auto
qed

section \<open>The delta flush\<close>

lemma ring_behind_frame:
  assumes "\<And>x. x \<in> set ts \<Longrightarrow> valid s' x = valid s x \<and> prev (chan s' x) = prev (chan s x)"
  shows "ring_behind s' p ts z = ring_behind s p ts z"
  using assms by (induction ts arbitrary: p) auto

lemma ring_behind_suffix:
  "ring_behind s p (as @ t # bs) z \<Longrightarrow> ring_behind s (prev (chan s t)) bs z"
  by (induction as arbitrary: p) auto

lemma ring_behind_longer:
  "ring_behind s p xs z \<Longrightarrow> ring_behind s p ys z' \<Longrightarrow> length xs < length ys \<Longrightarrow> z \<in> set ys"
proof (induction xs arbitrary: p ys)
  case Nil
  then show ?case by (cases ys) auto
next
  case (Cons x xs)
  then show ?case by (cases ys) auto
qed

lemma ring_behind_distinct:
  assumes "ring_behind s p ts z" and "z \<notin> set ts"
  shows "distinct ts"
  using assms
proof (induction ts arbitrary: p)
  case Nil
  then show ?case by simp
next
  case (Cons t ts)
  have rest: "ring_behind s (prev (chan s t)) ts z"
    using Cons.prems by simp
  have "t \<notin> set ts"
  proof
    assume "t \<in> set ts"
    then obtain as bs where ts: "ts = as @ t # bs"
      by (auto simp add: in_set_conv_decomp)
    have "ring_behind s (prev (chan s t)) bs z"
      using rest unfolding ts by (rule ring_behind_suffix)
    then have "z \<in> set ts"
      using rest by (rule ring_behind_longer) (simp add: ts)
    then show False
      using Cons.prems by simp
  qed
  then show ?case
    using Cons.IH [OF rest] Cons.prems by simp
qed

lemma valid_transfer_delta_channel [simp]: "valid (transfer_delta_channel J t s) a = valid s a"
  by (simp add: transfer_delta_channel_def Let_def)

lemma transfer_delta_channel_fresh:
  assumes "valid s J" and "valid s t" and "t \<noteq> J" and "lltransfer (chan s t) = None"
  shows "chan (transfer_delta_channel J t s) a =
     (if a = J then (chan s J)\<lparr>lltransfer := Some t\<rparr>
      else if a = t
      then (chan s t)\<lparr>state := state (chan s t) OR delta (chan s t), delta := 0,
             lltransfer := lltransfer (chan s J)\<rparr>
      else chan s a)"
proof -
  let ?s2 = "upd t Channel_ClearDelta (upd t (Channel_StateMerge (Channel_GetDelta (chan s t))) s)"
  have v: "valid ?s2 J" "valid ?s2 t"
    using assms by simp_all
  have n: "lltransfer (chan ?s2 t) = None"
    using assms by (simp add: Channel_ClearDelta_def Channel_StateMerge_def)
  have "chan (transfer_delta_channel J t s) a =
     (if a = J then (chan ?s2 J)\<lparr>lltransfer := Some t\<rparr>
      else if a = t then (chan ?s2 t)\<lparr>lltransfer := lltransfer (chan ?s2 J)\<rparr>
      else chan ?s2 a)"
    unfolding transfer_delta_channel_def Let_def
    by (rule Junction_AddTransfer_fresh [OF v assms(3) n])
  then show ?thesis
    using assms
    by (simp add: Channel_ClearDelta_def Channel_StateMerge_def Channel_GetDelta_def)
qed

lemma junction_transfer_delta_loop_walk:
  assumes "valid s J" and "valid s z"
    and "ring_behind s p ts z"
    and "\<forall>t \<in> set ts. Channel_GetDelta (chan s t) \<noteq> 0 \<and> lltransfer (chan s t) = None"
    and "Channel_GetDelta (chan s z) = 0"
    and "transfer_list s (lltransfer (chan s J)) xs J"
  shows "\<exists>s'. junction_transfer_delta_loop J p s = Inr s'
     \<and> transfer_list s' (lltransfer (chan s' J)) (rev ts @ xs) J
     \<and> (\<forall>t \<in> set ts. \<exists>l. chan s' t =
            (chan s t)\<lparr>state := state (chan s t) OR delta (chan s t), delta := 0,
               lltransfer := l\<rparr>)
     \<and> (\<forall>a. a \<notin> set ts \<longrightarrow> a \<noteq> J \<longrightarrow> chan s' a = chan s a)
     \<and> (\<exists>l. chan s' J = (chan s J)\<lparr>lltransfer := l\<rparr>)
     \<and> (\<forall>a. valid s' a = valid s a)"
  using assms
proof (induction ts arbitrary: s p xs)
  case Nil
  then have "junction_transfer_delta_loop J p s = Inr s"
    by (subst junction_transfer_delta_loop.simps) simp
  moreover have "\<exists>l. chan s J = (chan s J)\<lparr>lltransfer := l\<rparr>"
    by (rule exI [of _ "lltransfer (chan s J)"]) simp
  moreover have "transfer_list s (lltransfer (chan s J)) (rev [] @ xs) J"
    using Nil.prems(6) by simp
  ultimately show ?case
    by (intro exI [of _ s] conjI) simp_all
next
  case (Cons t ts)
  have zts: "z \<notin> set (t # ts)"
    using Cons.prems(4,5) by auto
  have dist: "distinct (t # ts)"
    using Cons.prems(3) zts by (rule ring_behind_distinct)
  have p: "p = Some t" and vt: "valid s t"
    and rest: "ring_behind s (prev (chan s t)) ts z"
    using Cons.prems(3) by simp_all
  have dt: "Channel_GetDelta (chan s t) \<noteq> 0" and nt: "lltransfer (chan s t) = None"
    using Cons.prems(4) by simp_all
  have J: "lltransfer (chan s J) \<noteq> None"
    using Cons.prems(6) by (cases xs) auto
  then have tJ: "t \<noteq> J"
    using nt by auto
  have Jts: "J \<notin> set ts"
    using Cons.prems(4) J by auto
  let ?s = "transfer_delta_channel J t s"
  note f = transfer_delta_channel_fresh [OF Cons.prems(1) vt tJ nt]
  have cJ: "chan ?s J = (chan s J)\<lparr>lltransfer := Some t\<rparr>"
    by (simp add: f)
  have ct: "chan ?s t = (chan s t)\<lparr>state := state (chan s t) OR delta (chan s t), delta := 0,
             lltransfer := lltransfer (chan s J)\<rparr>"
    using tJ by (simp add: f)
  have co: "chan ?s a = chan s a" if "a \<noteq> J" "a \<noteq> t" for a
    using that by (simp add: f)
  have step: "junction_transfer_delta_loop J p s
      = junction_transfer_delta_loop J (prev (chan s t)) ?s"
    unfolding p using vt dt tJ
    by (subst junction_transfer_delta_loop.simps) (simp add: ct)
  have pr: "prev (chan ?s a) = prev (chan s a)" for a
    by (simp add: f)
  have r: "ring_behind ?s (prev (chan s t)) ts z"
    using rest by (subst ring_behind_frame [where s = s]) (simp_all add: pr)
  have d: "\<forall>u \<in> set ts. Channel_GetDelta (chan ?s u) \<noteq> 0 \<and> lltransfer (chan ?s u) = None"
  proof
    fix u
    assume u: "u \<in> set ts"
    then have "u \<noteq> J" "u \<noteq> t"
      using dist Jts by auto
    then show "Channel_GetDelta (chan ?s u) \<noteq> 0 \<and> lltransfer (chan ?s u) = None"
      using Cons.prems(4) u by (simp add: co)
  qed
  have z: "Channel_GetDelta (chan ?s z) = 0"
    using Cons.prems(5) by (auto simp add: f Channel_GetDelta_def)
  have tx: "t \<notin> set xs"
    using transfer_list_linked [OF Cons.prems(6), of t] nt by force
  have Jx: "J \<notin> set xs"
    using Cons.prems(6) by (rule transfer_list_not_Junction)
  have "transfer_list ?s (lltransfer (chan s J)) xs J"
  proof (subst transfer_list_frame [where s = s])
    show "valid ?s x = valid s x \<and> lltransfer (chan ?s x) = lltransfer (chan s x)"
      if "x \<in> set xs" for x
    proof -
      have "x \<noteq> J" "x \<noteq> t"
        using that tx Jx by auto
      then show ?thesis
        by (simp add: co)
    qed
    show "transfer_list s (lltransfer (chan s J)) xs J"
      by (rule Cons.prems(6))
  qed
  then have l: "transfer_list ?s (lltransfer (chan ?s J)) (t # xs) J"
    using tJ vt by (simp add: cJ ct)
  have v1: "valid ?s J" and v2: "valid ?s z"
    using Cons.prems(1,2) by simp_all
  have "\<exists>s'. junction_transfer_delta_loop J (prev (chan s t)) ?s = Inr s'
     \<and> transfer_list s' (lltransfer (chan s' J)) (rev ts @ t # xs) J
     \<and> (\<forall>u \<in> set ts. \<exists>l. chan s' u =
            (chan ?s u)\<lparr>state := state (chan ?s u) OR delta (chan ?s u), delta := 0,
               lltransfer := l\<rparr>)
     \<and> (\<forall>a. a \<notin> set ts \<longrightarrow> a \<noteq> J \<longrightarrow> chan s' a = chan ?s a)
     \<and> (\<exists>l. chan s' J = (chan ?s J)\<lparr>lltransfer := l\<rparr>)
     \<and> (\<forall>a. valid s' a = valid ?s a)"
    by (rule Cons.IH [OF v1 v2 r d z l])
  then obtain s' where s': "junction_transfer_delta_loop J (prev (chan s t)) ?s = Inr s'"
    and l': "transfer_list s' (lltransfer (chan s' J)) (rev ts @ t # xs) J"
    and m': "\<forall>u \<in> set ts. \<exists>l. chan s' u =
            (chan ?s u)\<lparr>state := state (chan ?s u) OR delta (chan ?s u), delta := 0,
               lltransfer := l\<rparr>"
    and o': "\<forall>a. a \<notin> set ts \<longrightarrow> a \<noteq> J \<longrightarrow> chan s' a = chan ?s a"
    and J': "\<exists>l. chan s' J = (chan ?s J)\<lparr>lltransfer := l\<rparr>"
    and v': "\<forall>a. valid s' a = valid ?s a"
    by blast
  have t': "chan s' t = chan ?s t"
    using o' dist tJ by simp
  show ?case
  proof (intro exI [of _ s'] conjI ballI allI impI)
    show "junction_transfer_delta_loop J p s = Inr s'"
      using step s' by simp
    show "transfer_list s' (lltransfer (chan s' J)) (rev (t # ts) @ xs) J"
      using l' by simp
    show "\<exists>l. chan s' J = (chan s J)\<lparr>lltransfer := l\<rparr>"
      using J' by (simp add: cJ)
    show "valid s' a = valid s a" for a
      using v' by simp
    show "chan s' a = chan s a" if "a \<notin> set (t # ts)" "a \<noteq> J" for a
      using o' that by (simp add: co)
  next
    fix u
    assume u: "u \<in> set (t # ts)"
    have uJ: "u \<noteq> J"
      using u tJ Jts by auto
    show "\<exists>l. chan s' u =
            (chan s u)\<lparr>state := state (chan s u) OR delta (chan s u), delta := 0,
               lltransfer := l\<rparr>"
    proof (cases "u = t")
      case True
      then show ?thesis
        by (intro exI [of _ "lltransfer (chan s J)"]) (simp add: t' ct)
    next
      case False
      then have "chan ?s u = chan s u"
        using uJ by (simp add: co)
      moreover have "\<exists>l. chan s' u =
            (chan ?s u)\<lparr>state := state (chan ?s u) OR delta (chan ?s u), delta := 0,
               lltransfer := l\<rparr>"
        using m' u False by auto
      ultimately show ?thesis
        by simp
    qed
  qed
qed

text \<open>C1: in the delta flush the walk starts at the Channel behind the Junction and goes
  backward; the Channels \<open>ts\<close> it meets with a delta word that is not zero (none of them on
  the transfer list yet, as at the start of a cycle) get the delta merged into the state word
  and the delta word cleared, and are prepended to the transfer list one after the other; the
  walk stops at the first Channel \<open>z\<close> whose delta word is zero, and no other Channel is
  changed.\<close>

theorem junction_transfer_delta_walk:
  assumes "valid s J" and "valid s z"
    and "ring_behind s (prev (chan s J)) ts z"
    and "\<forall>t \<in> set ts. Channel_GetDelta (chan s t) \<noteq> 0 \<and> lltransfer (chan s t) = None"
    and "Channel_GetDelta (chan s z) = 0"
    and "transfer_list s (lltransfer (chan s J)) xs J"
  shows "\<exists>s'. junction_transfer_delta J s = Inr s'
     \<and> transfer_list s' (lltransfer (chan s' J)) (rev ts @ xs) J
     \<and> (\<forall>t \<in> set ts. \<exists>l. chan s' t =
            (chan s t)\<lparr>state := state (chan s t) OR delta (chan s t), delta := 0,
               lltransfer := l\<rparr>)
     \<and> (\<forall>a. a \<notin> set ts \<longrightarrow> a \<noteq> J \<longrightarrow> chan s' a = chan s a)
     \<and> (\<exists>l. chan s' J = (chan s J)\<lparr>lltransfer := l\<rparr>)"
  using junction_transfer_delta_loop_walk [OF assms] assms(1)
  by (auto simp add: junction_transfer_delta_def)

theorem junction_transfer_delta_walk_witness:
  "valid (ex_sys (ex_junction\<lparr>lltransfer := Some 0\<rparr>) ex_reader (ex_writer\<lparr>delta := 2\<rparr>)) 0
   \<and> ring_behind (ex_sys (ex_junction\<lparr>lltransfer := Some 0\<rparr>) ex_reader (ex_writer\<lparr>delta := 2\<rparr>))
        (prev (chan (ex_sys (ex_junction\<lparr>lltransfer := Some 0\<rparr>) ex_reader (ex_writer\<lparr>delta := 2\<rparr>)) 0))
        [2] 1
   \<and> (\<exists>s'. junction_transfer_delta 0
          (ex_sys (ex_junction\<lparr>lltransfer := Some 0\<rparr>) ex_reader (ex_writer\<lparr>delta := 2\<rparr>)) = Inr s'
        \<and> transfer_list s' (lltransfer (chan s' 0)) [2] 0
        \<and> state (chan s' 2) = 2 \<and> delta (chan s' 2) = 0
        \<and> chan s' 1 = ex_reader)"
proof -
  let ?s = "ex_sys (ex_junction\<lparr>lltransfer := Some 0\<rparr>) ex_reader (ex_writer\<lparr>delta := 2\<rparr>)"
  have v: "valid ?s 0" "valid ?s 1"
    by (simp_all add: valid_def ex_sys_def)
  have r: "ring_behind ?s (prev (chan ?s 0)) [2] 1"
    by (simp add: valid_def chan_def ex_sys_def ex_junction_def ex_writer_def)
  have d: "\<forall>t \<in> set [2]. Channel_GetDelta (chan ?s t) \<noteq> 0 \<and> lltransfer (chan ?s t) = None"
    by (simp add: Channel_GetDelta_def chan_def ex_sys_def ex_writer_def blank_def)
  have z: "Channel_GetDelta (chan ?s 1) = 0"
    by (simp add: Channel_GetDelta_def chan_def ex_sys_def ex_reader_def blank_def)
  have l: "transfer_list ?s (lltransfer (chan ?s 0)) [] 0"
    by (simp add: chan_def ex_sys_def)
  have c: "chan ?s 1 = ex_reader" "state (chan ?s 2) = 0" "delta (chan ?s 2) = 2"
    by (simp_all add: chan_def ex_sys_def ex_writer_def blank_def)
  obtain s' where s': "junction_transfer_delta 0 ?s = Inr s'"
    and t: "transfer_list s' (lltransfer (chan s' 0)) (rev [2] @ []) 0"
    and m: "\<forall>t \<in> set [2]. \<exists>l. chan s' t =
            (chan ?s t)\<lparr>state := state (chan ?s t) OR delta (chan ?s t), delta := 0,
               lltransfer := l\<rparr>"
    and o: "\<forall>a. a \<notin> set [2] \<longrightarrow> a \<noteq> 0 \<longrightarrow> chan s' a = chan ?s a"
    using junction_transfer_delta_walk [OF v r d z l] by blast
  obtain n where n: "chan s' 2 =
      (chan ?s 2)\<lparr>state := state (chan ?s 2) OR delta (chan ?s 2), delta := 0, lltransfer := n\<rparr>"
    using m by auto
  have "state (chan s' 2) = 2" "delta (chan s' 2) = 0"
    unfolding n by (simp_all add: c)
  moreover have "chan s' 1 = ex_reader"
    using o c(1) by simp
  ultimately show ?thesis
    using v r s' t by auto
qed

section \<open>Running the transfers\<close>

lemma unat_succ_less:
  fixes a b :: "32 word"
  assumes "a < b"
  shows "unat (a + 1) = Suc (unat a)"
proof -
  have "unat a < unat b"
    using assms by (simp add: word_less_nat_alt)
  moreover have "unat b < 2 ^ 32"
    using unsigned_less [of b] by simp
  ultimately have "unat a + 1 < 2 ^ 32"
    by simp
  then show ?thesis
    by (simp add: unat_word_ariths)
qed

lemma put_kevent_emitted:
  assumes "valid s J" and "kevents_ok s J"
  shows "\<exists>s'. put_kevent J kev s = Inr s'
     \<and> emitted s' J = emitted s J @ [kev]
     \<and> (\<forall>a. a \<noteq> J \<longrightarrow> chan s' a = chan s a)
     \<and> ports s' = ports s
     \<and> (\<forall>a. valid s' a = valid s a)
     \<and> kevents_ok s' J"
proof (cases "Junction_MaxCollected (chan s J)")
  case True
  let ?n = "window_start (chan s J)"
  let ?s1 = "(upd J Junction_ResetWindow s)
      \<lparr>kernel_changes := kernel_changes s @ take (unat ?n) (kevents (chan s J))\<rparr>"
  have full: "?n = window_stop (chan s J)" and n0: "?n \<noteq> 0"
    using True assms(2) by (simp_all add: Junction_MaxCollected_def kevents_ok_def)
  have s1: "junction_current_kevent_slot J s = ?s1"
    using True n0
    by (simp add: junction_current_kevent_slot_def junction_kevent_change_def Let_def
        Junction_NChanges_def)
  have c1: "chan ?s1 J = Junction_ResetWindow (chan s J)"
    using assms(1) by (simp add: chan_def upd_def valid_def)
  have len: "0 < length (kevents (chan s J))"
    using assms(2) n0 full by (simp add: kevents_ok_def unat_gt_0)
  let ?s' = "upd J (\<lambda>c. Junction_ConsumeKEventSlot (c\<lparr>kevents := (kevents c)[0 := kev]\<rparr>)) ?s1"
  have r: "put_kevent J kev s = Inr ?s'"
    using len by (simp add: put_kevent_def Let_def s1 c1 Junction_ResetWindow_def)
  have v1: "valid ?s1 J"
    using assms(1) by (simp add: valid_def upd_def)
  have cJ: "chan ?s' J = Junction_ConsumeKEventSlot
      ((Junction_ResetWindow (chan s J))\<lparr>kevents := (kevents (chan s J))[0 := kev]\<rparr>)"
    using v1 by (simp add: c1 Junction_ResetWindow_def)
  have e: "emitted ?s' J = emitted s J @ [kev]"
    unfolding emitted_def cJ using len
    by (simp add: Junction_NChanges_def Junction_ConsumeKEventSlot_def
        Junction_ResetWindow_def take_Suc_conv_app_nth)
  have o: "chan ?s' a = chan s a" if "a \<noteq> J" for a
    using that by (simp add: chan_def upd_def)
  have "1 \<le> window_stop (chan s J)"
    using n0 full by (simp add: not_less [symmetric])
  then have k: "kevents_ok ?s' J"
    unfolding kevents_ok_def cJ using assms(2)
    by (simp add: kevents_ok_def Junction_ConsumeKEventSlot_def Junction_ResetWindow_def)
  show ?thesis
    using r e o k by (intro exI [of _ ?s'] conjI allI impI) (simp_all add: valid_def upd_def)
next
  case False
  let ?i = "unat (window_start (chan s J))"
  have lt: "window_start (chan s J) < window_stop (chan s J)"
    using False assms(2) by (auto simp add: Junction_MaxCollected_def kevents_ok_def)
  have i: "?i < length (kevents (chan s J))"
    using lt assms(2) by (simp add: kevents_ok_def word_less_nat_alt)
  let ?s' = "upd J (\<lambda>c. Junction_ConsumeKEventSlot (c\<lparr>kevents := (kevents c)[?i := kev]\<rparr>)) s"
  have r: "put_kevent J kev s = Inr ?s'"
    using False i by (simp add: put_kevent_def Let_def junction_current_kevent_slot_def)
  have cJ: "chan ?s' J = Junction_ConsumeKEventSlot
      ((chan s J)\<lparr>kevents := (kevents (chan s J))[?i := kev]\<rparr>)"
    using assms(1) by simp
  have e: "emitted ?s' J = emitted s J @ [kev]"
    unfolding emitted_def cJ using i
    by (simp add: Junction_NChanges_def Junction_ConsumeKEventSlot_def
        unat_succ_less [OF lt] take_Suc_conv_app_nth)
  have o: "chan ?s' a = chan s a" if "a \<noteq> J" for a
    using that by simp
  have "window_start (chan s J) + 1 \<le> window_stop (chan s J)"
    using lt by (rule inc_le)
  then have k: "kevents_ok ?s' J"
    unfolding kevents_ok_def cJ using assms(2)
    by (simp add: kevents_ok_def Junction_ConsumeKEventSlot_def)
  show ?thesis
    using r e o k by (intro exI [of _ ?s'] conjI allI impI) simp_all
qed

lemma kevents_ok_other:
  assumes "kevents_ok s J" and "chan s' J = chan s J"
  shows "kevents_ok s' J"
  using assms by (simp add: kevents_ok_def)

lemma emitted_other:
  assumes "chan s' J = chan s J" and "kernel_changes s' = kernel_changes s"
  shows "emitted s' J = emitted s J"
  using assms by (simp add: emitted_def)

text \<open>The change that \<^verbatim>\<open>kfilter_cancel\<close> writes depends on the polarity of the Channel and on
  the descriptor of its Port only.\<close>

lemma kfilter_cancel_eq:
  assumes "Channel_GetControl (chan s' t) ctl_polarity = Channel_GetControl (chan s t) ctl_polarity"
    and "port (chan s' t) = port (chan s t)" and "ports s' = ports s"
  shows "kfilter_cancel s' t = kfilter_cancel s t"
  by (simp only: kfilter_cancel_def filters_def Channel_GetKPoint_def assms)

lemma junction_flow_status_effect:
  assumes "valid s J" and "valid s t" and "t \<noteq> J" and "kevents_ok s J"
  shows "\<exists>s'. junction_flow_status J t stat s = Inr s'
     \<and> chan s' t =
         (case stat of
            io_flow \<Rightarrow> Channel_INQualify teq_transfer (chan s t)
          | io_stop \<Rightarrow> Channel_XNQualify teq_transfer (chan s t)
          | io_terminate \<Rightarrow>
              Channel_NoteEvent tev_terminate (Channel_XQualify teq_terminate (chan s t)))
     \<and> emitted s' J =
         (if stat = io_terminate \<and> \<not> Channel_GetControl (chan s t) ctl_requeue
          then emitted s J @ [kfilter_cancel s t] else emitted s J)
     \<and> (\<forall>a. a \<noteq> t \<longrightarrow> a \<noteq> J \<longrightarrow> chan s' a = chan s a)
     \<and> ports s' = ports s
     \<and> (\<forall>a. valid s' a = valid s a)
     \<and> kevents_ok s' J"
proof (cases stat)
  case io_flow
  let ?s' = "upd t (Channel_INQualify teq_transfer) s"
  have cJ: "chan ?s' J = chan s J" and kc: "kernel_changes ?s' = kernel_changes s"
    using assms(3) by simp_all
  have "emitted ?s' J = emitted s J"
    using cJ kc by (rule emitted_other)
  moreover have "kevents_ok ?s' J"
    using assms(4) cJ by (rule kevents_ok_other)
  ultimately show ?thesis
    using io_flow assms(2) by (simp add: junction_flow_status_def)
next
  case io_stop
  let ?s' = "upd t (Channel_XNQualify teq_transfer) s"
  have cJ: "chan ?s' J = chan s J" and kc: "kernel_changes ?s' = kernel_changes s"
    using assms(3) by simp_all
  have "emitted ?s' J = emitted s J"
    using cJ kc by (rule emitted_other)
  moreover have "kevents_ok ?s' J"
    using assms(4) cJ by (rule kevents_ok_other)
  ultimately show ?thesis
    using io_stop assms(2) by (simp add: junction_flow_status_def)
next
  case io_terminate
  let ?s1 = "upd t (Channel_NoteEvent tev_terminate) (upd t (Channel_XQualify teq_terminate) s)"
  have c1: "chan ?s1 t = Channel_NoteEvent tev_terminate (Channel_XQualify teq_terminate (chan s t))"
    using assms(2) by simp
  have cJ: "chan ?s1 J = chan s J"
    using assms(3) by simp
  have e1: "emitted ?s1 J = emitted s J"
    using cJ by (rule emitted_other) simp
  have k1: "kevents_ok ?s1 J"
    using assms(4) cJ by (rule kevents_ok_other)
  have rq: "Channel_GetControl (chan ?s1 t) c = Channel_GetControl (chan s t) c" for c
    unfolding c1
    by (simp add: Channel_GetControl_def Channel_NoteEvent_def Channel_XQualify_def
        teq_terminate_def)
  have pt: "port (chan ?s1 t) = port (chan s t)"
    unfolding c1 by (simp add: Channel_NoteEvent_def Channel_XQualify_def)
  have kc: "kfilter_cancel ?s1 t = kfilter_cancel s t"
    by (rule kfilter_cancel_eq) (simp_all add: rq pt)
  show ?thesis
  proof (cases "Channel_GetControl (chan s t) ctl_requeue")
    case True
    have "junction_flow_status J t stat s = Inr ?s1"
      using io_terminate True rq by (simp add: junction_flow_status_def Let_def)
    then show ?thesis
      using io_terminate True c1 e1 k1 by (intro exI [of _ ?s1]) simp
  next
    case False
    have "valid ?s1 J"
      using assms(1) by simp
    then obtain s' where p: "put_kevent J (kfilter_cancel ?s1 t) ?s1 = Inr s'"
      and e: "emitted s' J = emitted ?s1 J @ [kfilter_cancel ?s1 t]"
      and o: "\<forall>a. a \<noteq> J \<longrightarrow> chan s' a = chan ?s1 a"
      and ps: "ports s' = ports ?s1"
      and v: "\<forall>a. valid s' a = valid ?s1 a"
      and k: "kevents_ok s' J"
      using put_kevent_emitted [of ?s1 J "kfilter_cancel ?s1 t"] k1 by blast
    have t': "chan s' t = chan ?s1 t"
      using o assms(3) by simp
    have "junction_flow_status J t stat s = Inr s'"
      using io_terminate False rq p by (simp add: junction_flow_status_def Let_def)
    moreover have "chan s' a = chan s a" if "a \<noteq> t" "a \<noteq> J" for a
      using o that by simp
    ultimately show ?thesis
      using io_terminate False t' c1 e e1 kc ps v k by (intro exI [of _ s']) simp
  qed
qed

text \<open>The body of the transfer loop on a Channel that is ready to transfer and is not
  terminating.\<close>

lemma junction_flow_transfer_effect:
  assumes "valid s J" and "valid s t" and "t \<noteq> J" and "kevents_ok s J"
    and "\<not> Channel_ShouldTerminate (chan s t)" and "Channel_ShouldTransfer (chan s t)"
    and "port (chan s t) = Some pa" and "pa < length (ports s)" and "io_defined (chan s t)"
    and "io t (ports s ! pa) (Channel_GetResourceSize (chan s t) - window_stop (chan s t))
          = (stat, xfer, p)"
  shows "\<exists>s'. junction_flow_transfer J io t s = Inr s'
     \<and> chan s' t =
         (case stat of
            io_flow \<Rightarrow> Channel_INQualify teq_transfer
              (Channel_ExpandWindow xfer (Channel_NoteEvent tev_transfer (chan s t)))
          | io_stop \<Rightarrow> Channel_XNQualify teq_transfer
              (Channel_ExpandWindow xfer (Channel_NoteEvent tev_transfer (chan s t)))
          | io_terminate \<Rightarrow>
              Channel_NoteEvent tev_terminate (Channel_XQualify teq_terminate
                (Channel_ExpandWindow xfer (Channel_NoteEvent tev_transfer (chan s t)))))
     \<and> emitted s' J =
         (if stat = io_terminate \<and> \<not> Channel_GetControl (chan s t) ctl_requeue
          then emitted s J @
            [\<lparr>kev_filter = (if Channel_GetControl (chan s t) ctl_polarity
                            then EVFILT_READ else EVFILT_WRITE),
              kev_ident = point p, kev_action = Some EV_DELETE, kev_eof = False,
              kev_fflags = 0, kev_udata = Some t\<rparr>]
          else emitted s J)
     \<and> (\<forall>a. a \<noteq> t \<longrightarrow> a \<noteq> J \<longrightarrow> chan s' a = chan s a)
     \<and> ports s' = (ports s)[pa := p]
     \<and> (\<forall>a. valid s' a = valid s a)
     \<and> kevents_ok s' J"
proof -
  let ?s0 = "upd J Junction_IncrementTransferCount s"
  let ?s1 = "upd t (Channel_NoteEvent tev_transfer) ?s0"
  let ?s2 = "?s1\<lparr>ports := (ports ?s1)[pa := p]\<rparr>"
  let ?s3 = "upd t (Channel_ExpandWindow xfer) ?s2"
  have c0: "chan ?s0 t = chan s t"
    using assms(3) by simp
  have v0: "valid ?s0 t"
    using assms(2) by simp
  have s2t: "chan ?s2 t = Channel_NoteEvent tev_transfer (chan s t)"
    using v0 c0 by (simp add: chan_def upd_def valid_def)
  have v2: "valid ?s2 t" "valid ?s2 J"
    using assms(1,2) by (simp_all add: valid_def upd_def)
  have c3: "chan ?s3 t = Channel_ExpandWindow xfer (Channel_NoteEvent tev_transfer (chan s t))"
    using v2(1) s2t by simp
  have s2J: "chan ?s2 J = Junction_IncrementTransferCount (chan s J)"
    using assms(1,3) by (simp add: chan_def upd_def valid_def)
  have cJ: "chan ?s3 J = Junction_IncrementTransferCount (chan s J)"
    using assms(3) s2J by simp
  have o3: "chan ?s3 a = chan s a" if "a \<noteq> t" "a \<noteq> J" for a
    using that by (simp add: chan_def upd_def)
  have v3: "valid ?s3 J" "valid ?s3 t"
    using v2 by simp_all
  have va: "valid ?s3 a = valid s a" for a
    by (simp add: valid_def upd_def)
  have p3: "ports ?s3 = (ports s)[pa := p]"
    by simp
  have k3: "kevents_ok ?s3 J"
    unfolding kevents_ok_def cJ using assms(4)
    by (simp add: kevents_ok_def Junction_IncrementTransferCount_def)
  have "kernel_changes ?s3 = kernel_changes s"
    by simp
  then have e3: "emitted ?s3 J = emitted s J"
    unfolding emitted_def cJ
    by (simp add: Junction_IncrementTransferCount_def Junction_NChanges_def)
  have rq: "Channel_GetControl (chan ?s3 t) c = Channel_GetControl (chan s t) c" for c
    unfolding c3
    by (simp add: Channel_GetControl_def Channel_NoteEvent_def Channel_ExpandWindow_def)
  have "port (chan ?s3 t) = Some pa"
    unfolding c3 using assms(7) by (simp add: Channel_NoteEvent_def Channel_ExpandWindow_def)
  then have kp: "Channel_GetKPoint ?s3 t = point p"
    using assms(8) by (simp add: Channel_GetKPoint_def)
  have kc: "kfilter_cancel ?s3 t =
      \<lparr>kev_filter = (if Channel_GetControl (chan s t) ctl_polarity
                      then EVFILT_READ else EVFILT_WRITE),
        kev_ident = point p, kev_action = Some EV_DELETE, kev_eof = False,
        kev_fflags = 0, kev_udata = Some t\<rparr>"
    unfolding kfilter_cancel_def filters_def kp rq ..
  have run: "junction_flow_transfer J io t s = junction_flow_status J t stat ?s3"
    using assms(5-10) by (simp add: junction_flow_transfer_def Let_def c0)
  obtain s' where r: "junction_flow_status J t stat ?s3 = Inr s'"
    and t': "chan s' t =
         (case stat of
            io_flow \<Rightarrow> Channel_INQualify teq_transfer (chan ?s3 t)
          | io_stop \<Rightarrow> Channel_XNQualify teq_transfer (chan ?s3 t)
          | io_terminate \<Rightarrow>
              Channel_NoteEvent tev_terminate (Channel_XQualify teq_terminate (chan ?s3 t)))"
    and e': "emitted s' J =
         (if stat = io_terminate \<and> \<not> Channel_GetControl (chan ?s3 t) ctl_requeue
          then emitted ?s3 J @ [kfilter_cancel ?s3 t] else emitted ?s3 J)"
    and o': "\<forall>a. a \<noteq> t \<longrightarrow> a \<noteq> J \<longrightarrow> chan s' a = chan ?s3 a"
    and p': "ports s' = ports ?s3"
    and v': "\<forall>a. valid s' a = valid ?s3 a"
    and k': "kevents_ok s' J"
    using junction_flow_status_effect [OF v3 assms(3) k3, of stat] by blast
  show ?thesis
  proof (intro exI [of _ s'] conjI allI impI)
    show "junction_flow_transfer J io t s = Inr s'"
      using run r by simp
    show "chan s' t =
         (case stat of
            io_flow \<Rightarrow> Channel_INQualify teq_transfer
              (Channel_ExpandWindow xfer (Channel_NoteEvent tev_transfer (chan s t)))
          | io_stop \<Rightarrow> Channel_XNQualify teq_transfer
              (Channel_ExpandWindow xfer (Channel_NoteEvent tev_transfer (chan s t)))
          | io_terminate \<Rightarrow>
              Channel_NoteEvent tev_terminate (Channel_XQualify teq_terminate
                (Channel_ExpandWindow xfer (Channel_NoteEvent tev_transfer (chan s t)))))"
      using t' unfolding c3 .
    show "emitted s' J =
         (if stat = io_terminate \<and> \<not> Channel_GetControl (chan s t) ctl_requeue
          then emitted s J @
            [\<lparr>kev_filter = (if Channel_GetControl (chan s t) ctl_polarity
                            then EVFILT_READ else EVFILT_WRITE),
              kev_ident = point p, kev_action = Some EV_DELETE, kev_eof = False,
              kev_fflags = 0, kev_udata = Some t\<rparr>]
          else emitted s J)"
      using e' unfolding rq e3 kc .
    show "chan s' a = chan s a" if "a \<noteq> t" "a \<noteq> J" for a
      using o' o3 that by simp
    show "ports s' = (ports s)[pa := p]"
      using p' p3 by simp
    show "valid s' a = valid s a" for a
      using v' va by simp
    show "kevents_ok s' J"
      by (rule k')
  qed
qed

section \<open>What a cycle leaves behind\<close>

subsection \<open>Steps that touch no transfer pointer and no event\<close>

lemma same_links_refl [simp]: "same_links s s"
  by (simp add: same_links_def)

lemma same_links_trans: "same_links s s' \<Longrightarrow> same_links s' s'' \<Longrightarrow> same_links s s''"
  by (simp add: same_links_def)




lemma same_links_upd:
  assumes "lltransfer (f (chan s a)) = lltransfer (chan s a)"
    and "events (f (chan s a)) = events (chan s a)"
  shows "same_links s (upd a f s)"
  using assms
  by (cases "a < length (chans s)")
     (auto simp add: same_links_def upd_def chan_def nth_list_update list_update_beyond)

lemma same_links_chans: "chans s' = chans s \<Longrightarrow> same_links s s'"
  by (simp add: same_links_def)




lemma same_links_qualify [simp]:
  "same_links s (upd a (Channel_IQualify q) s)"
  "same_links s (upd a (Channel_INQualify q) s)"
  "same_links s (upd a (Channel_XQualify q) s)"
  "same_links s (upd a (Channel_XNQualify q) s)"
  "same_links s (upd a (Channel_DQualify q) s)"
  "same_links s (upd a (Channel_DControl q) s)"
  "same_links s (upd a (Channel_NulControl q) s)"
  "same_links s (upd a Channel_ClearDelta s)"
  "same_links s (upd a (Channel_StateMerge d) s)"
  "same_links s (upd a (Channel_ExpandWindow n) s)"
  "same_links s (upd a Junction_ResetWindow s)"
  "same_links s (upd a Junction_IncrementTransferCount s)"
  "same_links s (upd a (\<lambda>c. c\<lparr>will_wait := w\<rparr>) s)"
  by (rule same_links_upd;
      simp add: Channel_IQualify_def Channel_INQualify_def Channel_XQualify_def
        Channel_XNQualify_def Channel_DQualify_def Channel_DControl_def Channel_NulControl_def
        Channel_ClearDelta_def Channel_StateMerge_def Channel_ExpandWindow_def
        Junction_ResetWindow_def Junction_IncrementTransferCount_def)+

lemma same_links_kevent_change: "same_links s (junction_kevent_change J s)"
proof -
  have "same_links s (upd J Junction_ResetWindow s)"
    by simp
  moreover have "chans (junction_kevent_change J s) = chans (upd J Junction_ResetWindow s)"
    by (simp add: junction_kevent_change_def Let_def)
  ultimately show ?thesis
    by (simp add: same_links_def)
qed

lemma same_links_put_kevent:
  assumes "put_kevent J kev s = Inr s'"
  shows "same_links s s'"
proof -
  let ?s1 = "junction_current_kevent_slot J s"
  have 1: "same_links s ?s1"
    by (simp add: junction_current_kevent_slot_def same_links_kevent_change)
  obtain i where "s' = upd J (\<lambda>c. Junction_ConsumeKEventSlot (c\<lparr>kevents := (kevents c)[i := kev]\<rparr>)) ?s1"
    using assms by (auto simp add: put_kevent_def Let_def split: if_splits)
  moreover have "same_links ?s1
      (upd J (\<lambda>c. Junction_ConsumeKEventSlot (c\<lparr>kevents := (kevents c)[i := kev]\<rparr>)) ?s1)"
    by (rule same_links_upd) (simp_all add: Junction_ConsumeKEventSlot_def)
  ultimately show ?thesis
    using 1 by (auto intro: same_links_trans)
qed











subsection \<open>Enqueueing inside a cycle\<close>

lemma chan_upd_any:
  "chan (upd a f s) b = (if a = b \<and> valid s a then f (chan s a) else chan s b)"
  by (cases "a = b") (simp_all add: chan_def upd_def valid_def list_update_beyond)

lemma events_AddTransfer [simp]:
  "events (chan (Junction_AddTransfer J t s) a) = events (chan s a)"
  by (simp add: Junction_AddTransfer_def Let_def chan_upd_any Channel_SetNextTransfer_def)









subsection \<open>Splicing a Channel out of the transfer list\<close>




lemma events_splice [simp]:
  "events (chan (upd t (Channel_SetNextTransfer n) s) a) = events (chan s a)"
  by (simp add: chan_upd_any Channel_SetNextTransfer_def)


subsection \<open>The phases of \<^verbatim>\<open>_junction_flow\<close>\<close>








subsection \<open>The transfers\<close>

lemma same_links_except_weaken: "same_links s s' \<Longrightarrow> same_links_except t s s'"
  by (simp add: same_links_def same_links_except_def)

lemma same_links_except_trans:
  "same_links_except t s s' \<Longrightarrow> same_links_except t s' s'' \<Longrightarrow> same_links_except t s s''"
  by (simp add: same_links_except_def)

lemma same_links_except_note: "same_links_except t s (upd t (Channel_NoteEvent e) s)"
  by (cases "t < length (chans s)")
     (auto simp add: same_links_except_def upd_def Channel_NoteEvent_def nth_list_update
       list_update_beyond)

lemma same_links_except_valid: "same_links_except t s s' \<Longrightarrow> valid s' a = valid s a"
  by (simp add: same_links_except_def valid_def)

lemma same_links_except_lltransfer:
  "same_links_except t s s' \<Longrightarrow> valid s a \<Longrightarrow> lltransfer (chan s' a) = lltransfer (chan s a)"
  by (simp add: same_links_except_def valid_def chan_def)


lemma transfer_list_same_links_except:
  assumes "same_links_except t s s'"
  shows "transfer_list s' p xs J = transfer_list s p xs J"
proof (induction xs arbitrary: p)
  case Nil
  show ?case by simp
next
  case (Cons x xs)
  show ?case
    using Cons.IH [of "lltransfer (chan s x)"]
      same_links_except_valid [OF assms, of x] same_links_except_lltransfer [OF assms, of x]
    by auto
qed



lemma same_links_except_flow_status:
  assumes "junction_flow_status J t stat s = Inr s'"
  shows "same_links_except t s s'"
proof (cases stat)
  case io_flow
  then show ?thesis
    using assms by (auto simp add: junction_flow_status_def intro: same_links_except_weaken)
next
  case io_stop
  then show ?thesis
    using assms by (auto simp add: junction_flow_status_def intro: same_links_except_weaken)
next
  case io_terminate
  let ?s1 = "upd t (Channel_NoteEvent tev_terminate) (upd t (Channel_XQualify teq_terminate) s)"
  have 1: "same_links_except t s ?s1"
    by (rule same_links_except_trans [of t s "upd t (Channel_XQualify teq_terminate) s"])
       (simp_all add: same_links_except_weaken same_links_except_note)
  have "same_links ?s1 s'"
    using assms io_terminate
    by (auto simp add: junction_flow_status_def Let_def split: if_splits
        intro: same_links_put_kevent)
  then show ?thesis
    using 1 by (blast intro: same_links_except_trans same_links_except_weaken)
qed

lemma same_links_except_flow_transfer:
  assumes "junction_flow_transfer J io t s = Inr s'"
  shows "same_links_except t s s'"
proof -
  let ?s0 = "upd J Junction_IncrementTransferCount s"
  have 0: "same_links_except t s ?s0"
    by (simp add: same_links_except_weaken)
  have "same_links_except t ?s0 s'"
  proof (cases "Channel_ShouldTerminate (chan ?s0 t)")
    case True
    then obtain s1 where s1: "(if \<not> Channel_GetControl (chan ?s0 t) ctl_requeue
               then put_kevent J (kfilter_cancel ?s0 t) ?s0
               else Inr ?s0) = Inr s1"
      and s': "s' = upd t (Channel_NoteEvent tev_terminate) s1"
      using assms by (auto simp add: junction_flow_transfer_def Let_def split: sum.splits)
    have "same_links ?s0 s1"
      using s1 by (auto split: if_splits intro: same_links_put_kevent)
    then show ?thesis
      unfolding s'
      by (blast intro: same_links_except_trans same_links_except_weaken same_links_except_note)
  next
    case False
    show ?thesis
    proof (cases "Channel_ShouldTransfer (chan ?s0 t)")
      case nt: False
      then show ?thesis
        using assms False by (simp add: junction_flow_transfer_def Let_def same_links_except_weaken)
    next
      case True
      then obtain pa stat xfer p where
        run: "junction_flow_status J t stat
            (upd t (Channel_ExpandWindow xfer)
              ((upd t (Channel_NoteEvent tev_transfer) ?s0)
                \<lparr>ports := (ports (upd t (Channel_NoteEvent tev_transfer) ?s0))[pa := p]\<rparr>)) = Inr s'"
        using assms False
        by (auto simp add: junction_flow_transfer_def Let_def
            split: option.splits if_splits prod.splits)
      let ?s1 = "upd t (Channel_NoteEvent tev_transfer) ?s0"
      let ?s2 = "?s1\<lparr>ports := (ports ?s1)[pa := p]\<rparr>"
      let ?s3 = "upd t (Channel_ExpandWindow xfer) ?s2"
      have "same_links_except t ?s0 ?s1"
        by (rule same_links_except_note)
      moreover have "same_links_except t ?s1 ?s2"
        by (rule same_links_except_weaken) (rule same_links_chans, simp)
      moreover have "same_links_except t ?s2 ?s3"
        by (rule same_links_except_weaken) simp
      moreover have "same_links_except t ?s3 s'"
        using run by (rule same_links_except_flow_status)
      ultimately show ?thesis
        by (blast intro: same_links_except_trans)
    qed
  qed
  then show ?thesis
    using 0 by (blast intro: same_links_except_trans)
qed



section \<open>The transfer loop over the transfer list\<close>

lemma junction_flow_transfer_step:
  assumes "valid s J" and "valid s t" and "t \<noteq> J" and "kevents_ok s J"
    and "Channel_ShouldTransfer (chan s t) \<longrightarrow> \<not> Channel_ShouldTerminate (chan s t) \<longrightarrow>
          (\<exists>pa. port (chan s t) = Some pa \<and> pa < length (ports s)) \<and> io_defined (chan s t)"
  shows "\<exists>s' ks. junction_flow_transfer J io t s = Inr s'
     \<and> emitted s' J = emitted s J @ ks
     \<and> (\<forall>k \<in> set ks. kev_udata k = Some t)
     \<and> (\<forall>a. a \<noteq> t \<longrightarrow> a \<noteq> J \<longrightarrow> chan s' a = chan s a)
     \<and> length (ports s') = length (ports s)
     \<and> (\<forall>a. valid s' a = valid s a)
     \<and> kevents_ok s' J"
proof -
  let ?s0 = "upd J Junction_IncrementTransferCount s"
  have c0: "chan ?s0 t = chan s t"
    using assms(3) by simp
  have cJ: "chan ?s0 J = Junction_IncrementTransferCount (chan s J)"
    using assms(1) by simp
  have v0: "valid ?s0 J" "valid ?s0 t"
    using assms(1,2) by simp_all
  have k0: "kevents_ok ?s0 J"
    unfolding kevents_ok_def cJ using assms(4)
    by (simp add: kevents_ok_def Junction_IncrementTransferCount_def)
  have e0: "emitted ?s0 J = emitted s J"
    unfolding emitted_def cJ
    by (simp add: Junction_IncrementTransferCount_def Junction_NChanges_def)
  have o0: "chan ?s0 a = chan s a" if "a \<noteq> J" for a
    using that by simp
  consider (terminate) "Channel_ShouldTerminate (chan s t)"
    | (transfer) "\<not> Channel_ShouldTerminate (chan s t)" "Channel_ShouldTransfer (chan s t)"
    | (idle) "\<not> Channel_ShouldTerminate (chan s t)" "\<not> Channel_ShouldTransfer (chan s t)"
    by blast
  then show ?thesis
  proof cases
    case terminate
    show ?thesis
    proof (cases "Channel_GetControl (chan s t) ctl_requeue")
      case True
      let ?s' = "upd t (Channel_NoteEvent tev_terminate) ?s0"
      have r: "junction_flow_transfer J io t s = Inr ?s'"
        using terminate True by (simp add: junction_flow_transfer_def Let_def c0)
      have j: "chan ?s' J = chan ?s0 J"
        using assms(3) by simp
      have "emitted ?s' J = emitted ?s0 J"
        using j by (rule emitted_other) simp
      then have "emitted ?s' J = emitted s J @ []"
        using e0 by simp
      moreover have "kevents_ok ?s' J"
        using k0 j by (rule kevents_ok_other)
      moreover have "chan ?s' a = chan s a" if "a \<noteq> t" "a \<noteq> J" for a
        using that by simp
      ultimately show ?thesis
        using r by (intro exI [of _ ?s'] exI [of _ "[]"] conjI allI impI ballI) simp_all
    next
      case False
      obtain s1 where p: "put_kevent J (kfilter_cancel ?s0 t) ?s0 = Inr s1"
        and e: "emitted s1 J = emitted ?s0 J @ [kfilter_cancel ?s0 t]"
        and o: "\<forall>a. a \<noteq> J \<longrightarrow> chan s1 a = chan ?s0 a"
        and ps: "ports s1 = ports ?s0"
        and v: "\<forall>a. valid s1 a = valid ?s0 a"
        and k: "kevents_ok s1 J"
        using put_kevent_emitted [OF v0(1) k0, of "kfilter_cancel ?s0 t"] by blast
      let ?s' = "upd t (Channel_NoteEvent tev_terminate) s1"
      have r: "junction_flow_transfer J io t s = Inr ?s'"
        using terminate False p by (simp add: junction_flow_transfer_def Let_def c0)
      have j: "chan ?s' J = chan s1 J"
        using assms(3) by simp
      have "emitted ?s' J = emitted s1 J"
        using j by (rule emitted_other) simp
      then have e': "emitted ?s' J = emitted s J @ [kfilter_cancel ?s0 t]"
        using e e0 by simp
      have k': "kevents_ok ?s' J"
        using k j by (rule kevents_ok_other)
      have u: "kev_udata (kfilter_cancel ?s0 t) = Some t"
        by (simp add: kfilter_cancel_def)
      have o': "chan ?s' a = chan s a" if "a \<noteq> t" "a \<noteq> J" for a
        using that o by simp
      have l: "length (ports ?s') = length (ports s)"
        using ps by simp
      have v': "valid ?s' a = valid s a" for a
        using v by simp
      show ?thesis
        using r e' k' u o' l v'
        by (intro exI [of _ ?s'] exI [of _ "[kfilter_cancel ?s0 t]"] conjI allI impI ballI)
          simp_all
    qed
  next
    case transfer
    obtain pa where pa: "port (chan s t) = Some pa" "pa < length (ports s)"
      and d: "io_defined (chan s t)"
      using assms(5) transfer by blast
    obtain stat xfer p
      where i: "io t (ports s ! pa) (Channel_GetResourceSize (chan s t) - window_stop (chan s t))
          = (stat, xfer, p)"
      by (cases "io t (ports s ! pa)
          (Channel_GetResourceSize (chan s t) - window_stop (chan s t))")
    obtain s' where r: "junction_flow_transfer J io t s = Inr s'"
      and e: "emitted s' J =
         (if stat = io_terminate \<and> \<not> Channel_GetControl (chan s t) ctl_requeue
          then emitted s J @
            [\<lparr>kev_filter = (if Channel_GetControl (chan s t) ctl_polarity
                            then EVFILT_READ else EVFILT_WRITE),
              kev_ident = point p, kev_action = Some EV_DELETE, kev_eof = False,
              kev_fflags = 0, kev_udata = Some t\<rparr>]
          else emitted s J)"
      and o: "\<forall>a. a \<noteq> t \<longrightarrow> a \<noteq> J \<longrightarrow> chan s' a = chan s a"
      and ps: "ports s' = (ports s)[pa := p]"
      and v: "\<forall>a. valid s' a = valid s a"
      and k: "kevents_ok s' J"
      using junction_flow_transfer_effect [where io = io, OF assms(1-4) transfer pa d i] by blast
    let ?ks = "if stat = io_terminate \<and> \<not> Channel_GetControl (chan s t) ctl_requeue
         then [\<lparr>kev_filter = (if Channel_GetControl (chan s t) ctl_polarity
                            then EVFILT_READ else EVFILT_WRITE),
              kev_ident = point p, kev_action = Some EV_DELETE, kev_eof = False,
              kev_fflags = 0, kev_udata = Some t\<rparr>]
         else []"
    have "emitted s' J = emitted s J @ ?ks" "\<forall>k \<in> set ?ks. kev_udata k = Some t"
      using e by simp_all
    then show ?thesis
      using r o ps v k by (intro exI [of _ s'] exI [of _ ?ks] conjI) simp_all
  next
    case idle
    have r: "junction_flow_transfer J io t s = Inr ?s0"
      using idle by (simp add: junction_flow_transfer_def Let_def c0)
    have "emitted ?s0 J = emitted s J @ []"
      using e0 by simp
    then show ?thesis
      using r k0 o0
      by (intro exI [of _ ?s0] exI [of _ "[]"] conjI allI impI ballI) simp_all
  qed
qed

lemma junction_flow_transfer_each_append:
  "junction_flow_transfer_each J io (ys @ zs) s =
     (case junction_flow_transfer_each J io ys s of
        Inl e \<Rightarrow> Inl e
      | Inr s0 \<Rightarrow> junction_flow_transfer_each J io zs s0)"
  by (induction ys arbitrary: s) (simp_all split: sum.split)

lemma transfer_list_valid: "transfer_list s p xs J \<Longrightarrow> \<forall>t \<in> set xs. valid s t"
  by (induction xs arbitrary: p) auto

text \<open>The loop follows the transfer pointers, and the body does not change them: the loop
  runs the body on the Channels of the transfer list, in the order of the list.\<close>

lemma junction_flow_transfers_each:
  assumes "transfer_list s p xs J"
  shows "junction_flow_transfers J io p s = Some (junction_flow_transfer_each J io xs s)"
  using assms
proof (induction xs arbitrary: p s)
  case Nil
  then show ?case
    by (subst junction_flow_transfers.simps) simp
next
  case (Cons x xs)
  then have p: "p = Some x" and x: "x \<noteq> J" "valid s x"
    and l: "transfer_list s (lltransfer (chan s x)) xs J"
    by simp_all
  show ?case
  proof (cases "junction_flow_transfer J io x s")
    case (Inl e)
    then show ?thesis
      unfolding p using x by (subst junction_flow_transfers.simps) simp
  next
    case (Inr s1)
    then have sl: "same_links_except x s s1"
      by (rule same_links_except_flow_transfer)
    have "lltransfer (chan s1 x) = lltransfer (chan s x)"
      using sl x(2) by (rule same_links_except_lltransfer)
    then have "transfer_list s1 (lltransfer (chan s1 x)) xs J"
      using l transfer_list_same_links_except [OF sl] by simp
    then have "junction_flow_transfers J io (lltransfer (chan s1 x)) s1
        = Some (junction_flow_transfer_each J io xs s1)"
      by (rule Cons.IH)
    then show ?thesis
      unfolding p using x Inr by (subst junction_flow_transfers.simps) simp
  qed
qed

lemma junction_flow_transfer_each_effect:
  assumes "valid s J" and "kevents_ok s J" and "distinct xs" and "J \<notin> set xs"
    and "\<forall>t \<in> set xs. valid s t"
    and "\<forall>t \<in> set xs.
          Channel_ShouldTransfer (chan s t) \<longrightarrow> \<not> Channel_ShouldTerminate (chan s t) \<longrightarrow>
          (\<exists>pa. port (chan s t) = Some pa \<and> pa < length (ports s)) \<and> io_defined (chan s t)"
  shows "\<exists>s' ks. junction_flow_transfer_each J io xs s = Inr s'
     \<and> emitted s' J = emitted s J @ ks
     \<and> (\<forall>k \<in> set ks. kev_udata k \<in> Some ` set xs)
     \<and> (\<forall>a. a \<notin> set xs \<longrightarrow> a \<noteq> J \<longrightarrow> chan s' a = chan s a)
     \<and> length (ports s') = length (ports s)
     \<and> (\<forall>a. valid s' a = valid s a)
     \<and> kevents_ok s' J"
  using assms
proof (induction xs arbitrary: s)
  case Nil
  then show ?case
    by (intro exI [of _ s] exI [of _ "[]"]) simp
next
  case (Cons t ts)
  have t: "valid s t" "t \<noteq> J" "t \<notin> set ts"
    using Cons.prems by auto
  have h: "Channel_ShouldTransfer (chan s t) \<longrightarrow> \<not> Channel_ShouldTerminate (chan s t) \<longrightarrow>
          (\<exists>pa. port (chan s t) = Some pa \<and> pa < length (ports s)) \<and> io_defined (chan s t)"
    using Cons.prems(6) by simp
  obtain s1 ks1 where r1: "junction_flow_transfer J io t s = Inr s1"
    and e1: "emitted s1 J = emitted s J @ ks1"
    and u1: "\<forall>k \<in> set ks1. kev_udata k = Some t"
    and o1: "\<forall>a. a \<noteq> t \<longrightarrow> a \<noteq> J \<longrightarrow> chan s1 a = chan s a"
    and l1: "length (ports s1) = length (ports s)"
    and v1: "\<forall>a. valid s1 a = valid s a"
    and k1: "kevents_ok s1 J"
    using junction_flow_transfer_step [OF Cons.prems(1) t(1,2) Cons.prems(2) h, of io] by blast
  have c: "chan s1 u = chan s u" if "u \<in> set ts" for u
    using that o1 t(3) Cons.prems(4) by auto
  have "valid s1 J" "distinct ts" "J \<notin> set ts" "\<forall>u \<in> set ts. valid s1 u"
    using Cons.prems v1 by simp_all
  moreover have "\<forall>u \<in> set ts.
          Channel_ShouldTransfer (chan s1 u) \<longrightarrow> \<not> Channel_ShouldTerminate (chan s1 u) \<longrightarrow>
          (\<exists>pa. port (chan s1 u) = Some pa \<and> pa < length (ports s1)) \<and> io_defined (chan s1 u)"
    using Cons.prems(6) c l1 by simp
  ultimately obtain s' ks2 where r2: "junction_flow_transfer_each J io ts s1 = Inr s'"
    and e2: "emitted s' J = emitted s1 J @ ks2"
    and u2: "\<forall>k \<in> set ks2. kev_udata k \<in> Some ` set ts"
    and o2: "\<forall>a. a \<notin> set ts \<longrightarrow> a \<noteq> J \<longrightarrow> chan s' a = chan s1 a"
    and l2: "length (ports s') = length (ports s1)"
    and v2: "\<forall>a. valid s' a = valid s1 a"
    and k2: "kevents_ok s' J"
    using Cons.IH [of s1] k1 by blast
  show ?case
  proof (intro exI [of _ s'] exI [of _ "ks1 @ ks2"] conjI allI impI ballI)
    show "junction_flow_transfer_each J io (t # ts) s = Inr s'"
      using r1 r2 by simp
    show "emitted s' J = emitted s J @ ks1 @ ks2"
      using e1 e2 by simp
    show "kev_udata k \<in> Some ` set (t # ts)" if "k \<in> set (ks1 @ ks2)" for k
      using that u1 u2 by auto
    show "chan s' a = chan s a" if "a \<notin> set (t # ts)" "a \<noteq> J" for a
      using that o1 o2 by simp
    show "length (ports s') = length (ports s)"
      using l1 l2 by simp
    show "valid s' a = valid s a" for a
      using v1 v2 by simp
    show "kevents_ok s' J"
      by (rule k2)
  qed
qed

text \<open>C2: the transfer loop of \<^verbatim>\<open>_junction_flow\<close> returns, and for every Channel \<open>t\<close> of the
  transfer list that is ready to transfer and is not terminating when the loop starts: with
  \<open>s0\<close> the state in which the loop reaches \<open>t\<close>, the transfer function has run on the
  Port of \<open>t\<close> and on the rest of its resource, the transfer event is recorded and the window
  is expanded by the bytes moved; then \<open>io_flow\<close> has cleared the internal transfer
  qualification, \<open>io_stop\<close> has cleared the external transfer qualification, and
  \<open>io_terminate\<close> has set the external terminate qualification and recorded the terminate
  event.  Among the changes that the loop has emitted there is exactly one about \<open>t\<close> when
  the status was \<open>io_terminate\<close> and the requeue flag is not set, namely the deletion
  (\<^verbatim>\<open>EV_DELETE\<close>) of the read filter of an input Channel, or of the write filter of an
  output Channel, on the descriptor of its Port; otherwise there is none about \<open>t\<close>.\<close>

theorem junction_flow_transfers_status:
  assumes "valid s J" and "kevents_ok s J"
    and "transfer_list s (lltransfer (chan s J)) xs J"
    and "\<forall>t \<in> set xs.
          Channel_ShouldTransfer (chan s t) \<longrightarrow> \<not> Channel_ShouldTerminate (chan s t) \<longrightarrow>
          (\<exists>pa. port (chan s t) = Some pa \<and> pa < length (ports s)) \<and> io_defined (chan s t)"
  shows "\<exists>s'. junction_flow_transfers J io (lltransfer (chan s J)) s = Some (Inr s')
     \<and> (\<forall>ys t zs. xs = ys @ t # zs \<longrightarrow>
          Channel_ShouldTransfer (chan s t) \<longrightarrow> \<not> Channel_ShouldTerminate (chan s t) \<longrightarrow>
          (\<exists>s0 pa stat xfer p before after.
              junction_flow_transfer_each J io ys s = Inr s0
            \<and> port (chan s t) = Some pa
            \<and> io t (ports s0 ! pa)
                 (Channel_GetResourceSize (chan s t) - window_stop (chan s t)) = (stat, xfer, p)
            \<and> chan s' t =
                (case stat of
                   io_flow \<Rightarrow> Channel_INQualify teq_transfer
                     (Channel_ExpandWindow xfer (Channel_NoteEvent tev_transfer (chan s t)))
                 | io_stop \<Rightarrow> Channel_XNQualify teq_transfer
                     (Channel_ExpandWindow xfer (Channel_NoteEvent tev_transfer (chan s t)))
                 | io_terminate \<Rightarrow>
                     Channel_NoteEvent tev_terminate (Channel_XQualify teq_terminate
                       (Channel_ExpandWindow xfer (Channel_NoteEvent tev_transfer (chan s t)))))
            \<and> emitted s' J = emitted s J @ before @
                (if stat = io_terminate \<and> \<not> Channel_GetControl (chan s t) ctl_requeue
                 then [\<lparr>kev_filter = (if Channel_GetControl (chan s t) ctl_polarity
                                       then EVFILT_READ else EVFILT_WRITE),
                         kev_ident = point p, kev_action = Some EV_DELETE, kev_eof = False,
                         kev_fflags = 0, kev_udata = Some t\<rparr>]
                 else []) @ after
            \<and> (\<forall>k \<in> set before \<union> set after. kev_udata k \<noteq> Some t)))"
proof -
  have d: "distinct xs" and nJ: "J \<notin> set xs" and vx: "\<forall>t \<in> set xs. valid s t"
    using assms(3)
    by (simp_all add: transfer_list_distinct transfer_list_not_Junction transfer_list_valid)
  obtain s' where e: "junction_flow_transfer_each J io xs s = Inr s'"
    using junction_flow_transfer_each_effect [OF assms(1,2) d nJ vx assms(4), of io] by blast
  have run: "junction_flow_transfers J io (lltransfer (chan s J)) s = Some (Inr s')"
    using junction_flow_transfers_each [OF assms(3), of io] e by simp
  have each: "\<exists>s0 pa stat xfer p before after.
              junction_flow_transfer_each J io ys s = Inr s0
            \<and> port (chan s t) = Some pa
            \<and> io t (ports s0 ! pa)
                 (Channel_GetResourceSize (chan s t) - window_stop (chan s t)) = (stat, xfer, p)
            \<and> chan s' t =
                (case stat of
                   io_flow \<Rightarrow> Channel_INQualify teq_transfer
                     (Channel_ExpandWindow xfer (Channel_NoteEvent tev_transfer (chan s t)))
                 | io_stop \<Rightarrow> Channel_XNQualify teq_transfer
                     (Channel_ExpandWindow xfer (Channel_NoteEvent tev_transfer (chan s t)))
                 | io_terminate \<Rightarrow>
                     Channel_NoteEvent tev_terminate (Channel_XQualify teq_terminate
                       (Channel_ExpandWindow xfer (Channel_NoteEvent tev_transfer (chan s t)))))
            \<and> emitted s' J = emitted s J @ before @
                (if stat = io_terminate \<and> \<not> Channel_GetControl (chan s t) ctl_requeue
                 then [\<lparr>kev_filter = (if Channel_GetControl (chan s t) ctl_polarity
                                       then EVFILT_READ else EVFILT_WRITE),
                         kev_ident = point p, kev_action = Some EV_DELETE, kev_eof = False,
                         kev_fflags = 0, kev_udata = Some t\<rparr>]
                 else []) @ after
            \<and> (\<forall>k \<in> set before \<union> set after. kev_udata k \<noteq> Some t)"
    if split: "xs = ys @ t # zs"
      and st: "Channel_ShouldTransfer (chan s t)" and nt: "\<not> Channel_ShouldTerminate (chan s t)"
    for ys t zs
  proof -
    have t: "t \<notin> set ys" "t \<notin> set zs" "t \<noteq> J" "valid s t"
      and dy: "distinct ys" "J \<notin> set ys" and dz: "distinct zs" "J \<notin> set zs"
      and yz: "set ys \<inter> set zs = {}"
      using d nJ vx unfolding split by auto
    have hy: "\<forall>u \<in> set ys. valid s u"
      "\<forall>u \<in> set ys.
          Channel_ShouldTransfer (chan s u) \<longrightarrow> \<not> Channel_ShouldTerminate (chan s u) \<longrightarrow>
          (\<exists>pa. port (chan s u) = Some pa \<and> pa < length (ports s)) \<and> io_defined (chan s u)"
      using vx assms(4) unfolding split by simp_all
    obtain s0 before where r0: "junction_flow_transfer_each J io ys s = Inr s0"
      and e0: "emitted s0 J = emitted s J @ before"
      and u0: "\<forall>k \<in> set before. kev_udata k \<in> Some ` set ys"
      and o0: "\<forall>a. a \<notin> set ys \<longrightarrow> a \<noteq> J \<longrightarrow> chan s0 a = chan s a"
      and l0: "length (ports s0) = length (ports s)"
      and v0: "\<forall>a. valid s0 a = valid s a"
      and k0: "kevents_ok s0 J"
      using junction_flow_transfer_each_effect [OF assms(1,2) dy hy, of io] by blast
    have c0: "chan s0 t = chan s t"
      using o0 t by simp
    obtain pa where pa: "port (chan s t) = Some pa" "pa < length (ports s)"
      and df: "io_defined (chan s t)"
      using assms(4) st nt unfolding split by auto
    obtain stat xfer p
      where i: "io t (ports s0 ! pa) (Channel_GetResourceSize (chan s t) - window_stop (chan s t))
          = (stat, xfer, p)"
      by (cases "io t (ports s0 ! pa)
          (Channel_GetResourceSize (chan s t) - window_stop (chan s t))")
    let ?mid = "if stat = io_terminate \<and> \<not> Channel_GetControl (chan s t) ctl_requeue
         then [\<lparr>kev_filter = (if Channel_GetControl (chan s t) ctl_polarity
                               then EVFILT_READ else EVFILT_WRITE),
                 kev_ident = point p, kev_action = Some EV_DELETE, kev_eof = False,
                 kev_fflags = 0, kev_udata = Some t\<rparr>]
         else []"
    have v0J: "valid s0 J" and v0t: "valid s0 t"
      using v0 assms(1) t(4) by simp_all
    have st0: "\<not> Channel_ShouldTerminate (chan s0 t)" "Channel_ShouldTransfer (chan s0 t)"
      and pa0: "port (chan s0 t) = Some pa" "pa < length (ports s0)"
      and df0: "io_defined (chan s0 t)"
      and i0: "io t (ports s0 ! pa)
          (Channel_GetResourceSize (chan s0 t) - window_stop (chan s0 t)) = (stat, xfer, p)"
      unfolding c0 l0 using st nt pa df i by simp_all
    obtain s1 where r1: "junction_flow_transfer J io t s0 = Inr s1"
      and c1: "chan s1 t =
         (case stat of
            io_flow \<Rightarrow> Channel_INQualify teq_transfer
              (Channel_ExpandWindow xfer (Channel_NoteEvent tev_transfer (chan s0 t)))
          | io_stop \<Rightarrow> Channel_XNQualify teq_transfer
              (Channel_ExpandWindow xfer (Channel_NoteEvent tev_transfer (chan s0 t)))
          | io_terminate \<Rightarrow>
              Channel_NoteEvent tev_terminate (Channel_XQualify teq_terminate
                (Channel_ExpandWindow xfer (Channel_NoteEvent tev_transfer (chan s0 t)))))"
      and e1: "emitted s1 J =
         (if stat = io_terminate \<and> \<not> Channel_GetControl (chan s0 t) ctl_requeue
          then emitted s0 J @
            [\<lparr>kev_filter = (if Channel_GetControl (chan s0 t) ctl_polarity
                            then EVFILT_READ else EVFILT_WRITE),
              kev_ident = point p, kev_action = Some EV_DELETE, kev_eof = False,
              kev_fflags = 0, kev_udata = Some t\<rparr>]
          else emitted s0 J)"
      and o1: "\<forall>a. a \<noteq> t \<longrightarrow> a \<noteq> J \<longrightarrow> chan s1 a = chan s0 a"
      and p1: "ports s1 = (ports s0)[pa := p]"
      and v1: "\<forall>a. valid s1 a = valid s0 a"
      and k1: "kevents_ok s1 J"
      using junction_flow_transfer_effect [where io = io, OF v0J v0t t(3) k0 st0 pa0 df0 i0]
      by blast
    have e1': "emitted s1 J = emitted s J @ before @ ?mid"
      using e1 e0 unfolding c0 by simp
    have cz: "chan s1 u = chan s u" if "u \<in> set zs" for u
    proof -
      have "u \<noteq> t" "u \<noteq> J" "u \<notin> set ys"
        using that t(2) dz(2) yz by auto
      then show ?thesis
        using o1 o0 by simp
    qed
    have l1: "length (ports s1) = length (ports s)"
      using p1 l0 by simp
    have "valid s1 J" "\<forall>u \<in> set zs. valid s1 u"
      using v1 v0 assms(1) vx unfolding split by simp_all
    moreover have "\<forall>u \<in> set zs.
          Channel_ShouldTransfer (chan s1 u) \<longrightarrow> \<not> Channel_ShouldTerminate (chan s1 u) \<longrightarrow>
          (\<exists>pa. port (chan s1 u) = Some pa \<and> pa < length (ports s1)) \<and> io_defined (chan s1 u)"
      using assms(4) cz l1 unfolding split by simp
    ultimately obtain s2 after where r2: "junction_flow_transfer_each J io zs s1 = Inr s2"
      and e2: "emitted s2 J = emitted s1 J @ after"
      and u2: "\<forall>k \<in> set after. kev_udata k \<in> Some ` set zs"
      and o2: "\<forall>a. a \<notin> set zs \<longrightarrow> a \<noteq> J \<longrightarrow> chan s2 a = chan s1 a"
      using junction_flow_transfer_each_effect [OF _ k1 dz(1,2), of io] by blast
    have "junction_flow_transfer_each J io xs s = Inr s2"
      unfolding split using r0 r1 r2 by (simp add: junction_flow_transfer_each_append)
    then have s2: "s2 = s'"
      using e by simp
    have ct: "chan s' t = chan s1 t"
      using o2 t(2,3) unfolding s2 by simp
    have u: "\<forall>k \<in> set before \<union> set after. kev_udata k \<noteq> Some t"
      using u0 u2 t(1,2) by auto
    show ?thesis
    proof (rule exI [of _ s0], rule exI [of _ pa], rule exI [of _ stat], rule exI [of _ xfer],
        rule exI [of _ p], rule exI [of _ before], rule exI [of _ after], intro conjI)
      show "junction_flow_transfer_each J io ys s = Inr s0"
        by (rule r0)
      show "port (chan s t) = Some pa"
        by (rule pa(1))
      show "io t (ports s0 ! pa) (Channel_GetResourceSize (chan s t) - window_stop (chan s t))
          = (stat, xfer, p)"
        by (rule i)
      show "chan s' t =
          (case stat of
             io_flow \<Rightarrow> Channel_INQualify teq_transfer
               (Channel_ExpandWindow xfer (Channel_NoteEvent tev_transfer (chan s t)))
           | io_stop \<Rightarrow> Channel_XNQualify teq_transfer
               (Channel_ExpandWindow xfer (Channel_NoteEvent tev_transfer (chan s t)))
           | io_terminate \<Rightarrow>
               Channel_NoteEvent tev_terminate (Channel_XQualify teq_terminate
                 (Channel_ExpandWindow xfer (Channel_NoteEvent tev_transfer (chan s t)))))"
        using c1 unfolding ct c0 .
      show "emitted s' J = emitted s J @ before @ ?mid @ after"
        using e2 e1' unfolding s2 by simp
      show "\<forall>k \<in> set before \<union> set after. kev_udata k \<noteq> Some t"
        by (rule u)
    qed
  qed
  show ?thesis
    using run each by (intro exI [of _ s']) blast
qed

theorem junction_flow_transfers_status_witness:
  "valid (ex_sys ex_cycling ex_first ex_second) 0
   \<and> kevents_ok (ex_sys ex_cycling ex_first ex_second) 0
   \<and> transfer_list (ex_sys ex_cycling ex_first ex_second)
        (lltransfer (chan (ex_sys ex_cycling ex_first ex_second) 0)) [1, 2] 0
   \<and> (\<exists>s'. junction_flow_transfers 0 ex_io
               (lltransfer (chan (ex_sys ex_cycling ex_first ex_second) 0))
               (ex_sys ex_cycling ex_first ex_second) = Some (Inr s')
        \<and> chan s' 1 = Channel_INQualify teq_transfer
              (Channel_ExpandWindow 5 (Channel_NoteEvent tev_transfer ex_first))
        \<and> chan s' 2 = Channel_NoteEvent tev_terminate (Channel_XQualify teq_terminate
              (Channel_ExpandWindow 5 (Channel_NoteEvent tev_transfer ex_second)))
        \<and> filter (\<lambda>k. kev_udata k = Some 1) (emitted s' 0) = []
        \<and> filter (\<lambda>k. kev_udata k = Some 2) (emitted s' 0) =
            [\<lparr>kev_filter = EVFILT_WRITE, kev_ident = 3, kev_action = Some EV_DELETE,
              kev_eof = False, kev_fflags = 0, kev_udata = Some 2\<rparr>])"
proof -
  let ?s = "ex_sys ex_cycling ex_first ex_second"
  have c: "chan ?s 0 = ex_cycling" "chan ?s 1 = ex_first" "chan ?s 2 = ex_second"
    by (simp_all add: chan_def ex_sys_def)
  have v: "valid ?s 0" "valid ?s 1" "valid ?s 2"
    by (simp_all add: valid_def ex_sys_def)
  have k: "kevents_ok ?s 0"
    unfolding kevents_ok_def c by (simp add: ex_cycling_def ex_junction_def blank_def)
  have l: "transfer_list ?s (lltransfer (chan ?s 0)) [1, 2] 0"
    using v unfolding transfer_list.simps c
    by (simp add: ex_cycling_def ex_first_def ex_second_def ex_ready_def)
  have q: "Channel_ShouldTransfer ex_first" "\<not> Channel_ShouldTerminate ex_first"
    "Channel_ShouldTransfer ex_second" "\<not> Channel_ShouldTerminate ex_second"
    by (simp_all add: ex_first_def ex_second_def ex_ready_def qual_defs word_defs)
  have p: "port ex_first = Some 1" "port ex_second = Some 2" "length (ports ?s) = 3"
    by (simp_all add: ex_first_def ex_second_def ex_ready_def ex_reader_def ex_writer_def
        ex_sys_def)
  have d: "io_defined ex_first" "io_defined ex_second"
    by (simp_all add: io_defined_def ex_first_def ex_second_def ex_ready_def ex_reader_def
        ex_writer_def blank_def)
  have g: "\<not> Channel_GetControl ex_first ctl_requeue" "\<not> Channel_GetControl ex_second ctl_requeue"
    "\<not> Channel_GetControl ex_second ctl_polarity"
    by (simp_all add: ex_first_def ex_second_def ex_ready_def qual_defs word_defs)
  have e: "emitted ?s 0 = []"
    unfolding emitted_def c
    by (simp add: ex_sys_def ex_cycling_def ex_junction_def blank_def Junction_NChanges_def)
  have h: "\<forall>t \<in> set [1, 2].
      Channel_ShouldTransfer (chan ?s t) \<longrightarrow> \<not> Channel_ShouldTerminate (chan ?s t) \<longrightarrow>
      (\<exists>pa. port (chan ?s t) = Some pa \<and> pa < length (ports ?s)) \<and> io_defined (chan ?s t)"
    using c p d by simp
  obtain s' where r: "junction_flow_transfers 0 ex_io (lltransfer (chan ?s 0)) ?s = Some (Inr s')"
    and a: "\<And>ys t zs. [1, 2] = ys @ t # zs \<Longrightarrow>
          Channel_ShouldTransfer (chan ?s t) \<Longrightarrow> \<not> Channel_ShouldTerminate (chan ?s t) \<Longrightarrow>
          (\<exists>s0 pa stat xfer p before after.
              junction_flow_transfer_each 0 ex_io ys ?s = Inr s0
            \<and> port (chan ?s t) = Some pa
            \<and> ex_io t (ports s0 ! pa)
                 (Channel_GetResourceSize (chan ?s t) - window_stop (chan ?s t)) = (stat, xfer, p)
            \<and> chan s' t =
                (case stat of
                   io_flow \<Rightarrow> Channel_INQualify teq_transfer
                     (Channel_ExpandWindow xfer (Channel_NoteEvent tev_transfer (chan ?s t)))
                 | io_stop \<Rightarrow> Channel_XNQualify teq_transfer
                     (Channel_ExpandWindow xfer (Channel_NoteEvent tev_transfer (chan ?s t)))
                 | io_terminate \<Rightarrow>
                     Channel_NoteEvent tev_terminate (Channel_XQualify teq_terminate
                       (Channel_ExpandWindow xfer (Channel_NoteEvent tev_transfer (chan ?s t)))))
            \<and> emitted s' 0 = emitted ?s 0 @ before @
                (if stat = io_terminate \<and> \<not> Channel_GetControl (chan ?s t) ctl_requeue
                 then [\<lparr>kev_filter = (if Channel_GetControl (chan ?s t) ctl_polarity
                                       then EVFILT_READ else EVFILT_WRITE),
                         kev_ident = point p, kev_action = Some EV_DELETE, kev_eof = False,
                         kev_fflags = 0, kev_udata = Some t\<rparr>]
                 else []) @ after
            \<and> (\<forall>k \<in> set before \<union> set after. kev_udata k \<noteq> Some t))"
    using junction_flow_transfers_status [OF v(1) k l h, of ex_io] by blast
  have 1: "chan s' 1 = Channel_INQualify teq_transfer
        (Channel_ExpandWindow 5 (Channel_NoteEvent tev_transfer ex_first))
      \<and> filter (\<lambda>k. kev_udata k = Some 1) (emitted s' 0) = []"
    using a [of "[]" 1 "[2]"] q unfolding c e
    by (auto simp add: ex_io_def filter_empty_conv)
  have 2: "chan s' 2 = Channel_NoteEvent tev_terminate (Channel_XQualify teq_terminate
        (Channel_ExpandWindow 5 (Channel_NoteEvent tev_transfer ex_second)))
      \<and> filter (\<lambda>k. kev_udata k = Some 2) (emitted s' 0) =
          [\<lparr>kev_filter = EVFILT_WRITE, kev_ident = 3, kev_action = Some EV_DELETE,
            kev_eof = False, kev_fflags = 0, kev_udata = Some 2\<rparr>]"
    using a [of "[1]" 2 "[]"] q g unfolding c e
    by (auto simp add: ex_io_def ex_port_def filter_empty_conv)
  show ?thesis
    using v(1) k l r 1 2 by blast
qed

subsection \<open>The drain\<close>

lemma same_links_release [simp]:
  "same_links s (upd a Channel_ReleaseResource s)"
  "same_links s (upd a Channel_ReleaseLink s)"
  "same_links s (upd a Channel_CollapseWindow s)"
  "same_links s (upd a Junction_DecrementChannelCount s)"
  "same_links s (upd a Junction_ResetTransferCount s)"
  "same_links s (upd a (\<lambda>c. c\<lparr>next := n\<rparr>) s)"
  "same_links s (upd a (\<lambda>c. c\<lparr>prev := n\<rparr>) s)"
  "same_links s (upd a (\<lambda>c. c\<lparr>prev := n, next := m\<rparr>) s)"
  by (rule same_links_upd;
      simp add: Channel_ReleaseResource_def Channel_ReleaseLink_def Channel_ClearWindow_def
        Channel_CollapseWindow_def Junction_DecrementChannelCount_def
        Junction_ResetTransferCount_def split: option.split)+





subsection \<open>Calls inside a cycle\<close>

lemma same_links_fall: "same_links s (fst (junction_fall J force s))"
  by (rule same_links_chans) (simp add: junction_fall_def)

lemma same_links_DETACH_SEGMENT:
  assumes "TRANSIT_DETACH_SEGMENT FIRST LAST s = Inr s'"
  shows "same_links s s'"
proof -
  obtain f_prev l_next where s': "s' = upd l_next (\<lambda>c. c\<lparr>prev := Some f_prev\<rparr>)
      (upd f_prev (\<lambda>c. c\<lparr>next := Some l_next\<rparr>) s)"
    using assms
    by (auto simp add: TRANSIT_DETACH_SEGMENT_def deref_def Let_def
        split: option.splits if_splits)
  show ?thesis
    unfolding s'
    by (rule same_links_trans [of s "upd f_prev (\<lambda>c. c\<lparr>next := Some l_next\<rparr>) s"]) simp_all
qed

lemma same_links_ATTACH_SEGMENT_BEFORE:
  assumes "TRANSIT_ATTACH_SEGMENT_BEFORE TARGET FIRST LAST s = Inr s'"
  shows "same_links s s'"
proof -
  obtain T_prev where s': "s' = upd T_prev (\<lambda>c. c\<lparr>next := Some FIRST\<rparr>)
      (upd TARGET (\<lambda>c. c\<lparr>prev := Some LAST\<rparr>)
        (upd LAST (\<lambda>c. c\<lparr>next := Some TARGET\<rparr>)
          (upd FIRST (\<lambda>c. c\<lparr>prev := Some T_prev\<rparr>) s)))"
    using assms
    by (auto simp add: TRANSIT_ATTACH_SEGMENT_BEFORE_def deref_def Let_def
        split: option.splits if_splits)
  let ?s1 = "upd FIRST (\<lambda>c. c\<lparr>prev := Some T_prev\<rparr>) s"
  let ?s2 = "upd LAST (\<lambda>c. c\<lparr>next := Some TARGET\<rparr>) ?s1"
  let ?s3 = "upd TARGET (\<lambda>c. c\<lparr>prev := Some LAST\<rparr>) ?s2"
  have "same_links s ?s1" "same_links ?s1 ?s2" "same_links ?s2 ?s3" "same_links ?s3 s'"
    unfolding s' by simp_all
  then show ?thesis
    by (blast intro: same_links_trans)
qed

lemma same_links_EnqueueDelta:
  assumes "Channel_EnqueueDelta t s = Inr s'"
  shows "same_links s s'"
proof (cases "Channel_GetDelta (chan s t) \<noteq> 0 \<and> Some t \<noteq> junction (chan s t)")
  case False
  then show ?thesis
    using assms by (auto simp add: Channel_EnqueueDelta_def Let_def)
next
  case True
  then obtain Ja s1 s2 where d: "TRANSIT_DETACH_SEGMENT t t s = Inr s1"
    and a: "TRANSIT_ATTACH_SEGMENT_BEFORE Ja t t s1 = Inr s2"
    and s': "s' = fst (junction_fall Ja 0 s2)"
    using assms
    by (auto simp add: Channel_EnqueueDelta_def Let_def deref_def
        TRANSIT_RELOCATE_SEGMENT_BEFORE_def split: option.splits if_splits sum.splits)
  have "same_links s s1" "same_links s1 s2" "same_links s2 s'"
    using d a unfolding s'
    by (simp_all add: same_links_DETACH_SEGMENT same_links_ATTACH_SEGMENT_BEFORE same_links_fall)
  then show ?thesis
    by (blast intro: same_links_trans)
qed

lemma same_links_resource [simp]:
  "same_links s (upd a (\<lambda>c. (Channel_ReleaseResource c)\<lparr>resource := r\<rparr>) s)"
  "same_links s (upd a (\<lambda>c. c\<lparr>resource := r\<rparr>) s)"
  "same_links s (upd a Channel_ClearWindow s)"
  "same_links s (upd a (\<lambda>c. c\<lparr>junction := j\<rparr>) s)"
  "same_links s (upd a Junction_IncrementChannelCount s)"
  by (rule same_links_upd;
      simp add: Channel_ReleaseResource_def Channel_ClearWindow_def
        Junction_IncrementChannelCount_def)+

lemma same_links_transit_acquire: "same_links s (fst (transit_acquire t res s))"
proof -
  let ?s1 = "upd t (\<lambda>c. (Channel_ReleaseResource c)\<lparr>resource := Some res\<rparr>) s"
  let ?s2 = "upd t Channel_ClearWindow ?s1"
  have 1: "same_links s ?s1" and 2: "same_links s ?s2"
    by (simp, rule same_links_trans [of s ?s1]) simp_all
  have 3: "same_links s (upd t (\<lambda>c. c\<lparr>resource := None\<rparr>) ?s1)"
    by (rule same_links_trans [OF 1]) simp
  have 4: "same_links s (upd t (Channel_IQualify teq_transfer) ?s2)"
    by (rule same_links_trans [OF 2]) simp
  have 5: "same_links s s3"
    if "Channel_EnqueueDelta t (upd t (Channel_DQualify teq_transfer) ?s2) = Inr s3" for s3
    using same_links_EnqueueDelta [OF that] 2
    by (blast intro: same_links_trans same_links_qualify)
  show ?thesis
    using 2 3 4 5
    by (auto simp add: transit_acquire_def Let_def split: sum.splits option.splits)
qed

lemma same_links_junction_acquire: "same_links s (fst (junction_acquire J ob s))"
proof (cases ob)
  case ObOther
  then show ?thesis by (simp add: junction_acquire_def)
next
  case (ObChannel t)
  let ?s1 = "upd t (Channel_DControl ctl_connect) s"
  let ?s2 = "upd t (\<lambda>c. c\<lparr>junction := Some J\<rparr>) ?s1"
  have 2: "same_links s ?s2"
    by (rule same_links_trans [of s ?s1]) simp_all
  have 3: "same_links s (upd J Junction_IncrementChannelCount s3)"
    if "TRANSIT_ATTACH t ?s2 = Inr s3" for s3
  proof -
    have "same_links ?s2 s3"
      using that
      by (auto simp add: TRANSIT_ATTACH_def deref_def split: option.splits if_splits
          intro: same_links_ATTACH_SEGMENT_BEFORE)
    then show ?thesis
      using 2 by (blast intro: same_links_trans same_links_resource)
  qed
  show ?thesis
    using ObChannel 2 3
    by (auto simp add: junction_acquire_def Let_def split: sum.splits)
qed

subsection \<open>A whole cycle\<close>






end
